theory Spec2Isabelle
  imports Complex_Main
begin

section \<open>The NEWICK reader of DendroPy (dendropy/dataio/newickreader.py)\<close>

text \<open>
  A shallow embedding of \<^verbatim>\<open>NewickReader\<close>: the reader's configuration, the comment
  classification of a tree statement, the recursive descent over a node description and
  the generator \<^verbatim>\<open>tree_iter\<close>. Every \<^verbatim>\<open>raise\<close> of the source is a value \<open>Inl e\<close>.
\<close>

subsection \<open>Exceptions\<close>

text \<open>
  The reader's own exception classes, the tokenizer's end-of-stream error (the one named
  in the commented-out handler of \<^verbatim>\<open>_parse_tree_node_description\<close>), and the Python
  built-in exceptions that the modelled code can raise. \<open>CollaboratorError\<close> stands for
  whatever a caller-supplied function raises.
\<close>

datatype error =
    NewickReaderInvalidTokenError
  | NewickReaderMalformedStatementError
  | NewickReaderIncompleteTreeStatementError
  | UnexpectedEndOfStreamError
  | NameError
  | AttributeError
  | TypeError
  | ValueError
  | IndexError
  | CollaboratorError string

subsection \<open>Strings\<close>

definition startswith :: "string \<Rightarrow> string \<Rightarrow> bool" where
  "startswith s p = (take (length p) s = p)"

text \<open>\<^verbatim>\<open>token.replace("_", " ")\<close>\<close>

definition replace_underscores :: "string \<Rightarrow> string" where
  "replace_underscores s = map (\<lambda>c. if c = CHR ''_'' then CHR '' '' else c) s"

subsection \<open>The tokenizer\<close>

text \<open>
  Modelled from the spec: \<^verbatim>\<open>nexusprocessing.NexusTokenizer\<close> is not among the sources.
  The character stream is taken as the sequence of lexical items the scanner finds in it:
  tokens (with their quoting flag) and bracketed comments (without the brackets).
  The tokenizer peeks at the current token, advances to the next token or signals the end
  of the stream, and accumulates the comments it passes until they are pulled.
\<close>

datatype item = Token string bool | Comment string

record tokenizer =
  current_token :: "string option"
  is_token_quoted :: bool
  captured_comments :: "string list"
  pending :: "item list"

text \<open>Modelled from the spec: a tokenizer freshly opened on a stream.\<close>

definition NexusTokenizer :: "item list \<Rightarrow> tokenizer" where
  "NexusTokenizer stream =
     \<lparr>current_token = None, is_token_quoted = False, captured_comments = [], pending = stream\<rparr>"

text \<open>Modelled from the spec: the comments in front of the next token, and what follows them.\<close>

fun skip_comments :: "item list \<Rightarrow> string list \<times> item list" where
  "skip_comments (Comment c # xs) = (c # fst (skip_comments xs), snd (skip_comments xs))"
| "skip_comments xs = ([], xs)"

text \<open>
  Modelled from the spec: \<^verbatim>\<open>require_next_token\<close> moves to the next token and fails when
  none remains.
\<close>

definition require_next_token :: "tokenizer \<Rightarrow> error + tokenizer" where
  "require_next_token tk =
     (case snd (skip_comments (pending tk)) of
        Token t q # r \<Rightarrow>
          Inr (tk\<lparr>current_token := Some t, is_token_quoted := q,
                   captured_comments := captured_comments tk @ fst (skip_comments (pending tk)),
                   pending := r\<rparr>)
      | _ \<Rightarrow> Inl UnexpectedEndOfStreamError)"

text \<open>
  Modelled from the spec: \<^verbatim>\<open>next_token\<close> moves to the next token; at the end of the stream
  the current token becomes \<^verbatim>\<open>None\<close>.
\<close>

definition next_token :: "tokenizer \<Rightarrow> tokenizer" where
  "next_token tk =
     (case snd (skip_comments (pending tk)) of
        Token t q # r \<Rightarrow>
          tk\<lparr>current_token := Some t, is_token_quoted := q,
              captured_comments := captured_comments tk @ fst (skip_comments (pending tk)),
              pending := r\<rparr>
      | _ \<Rightarrow>
          tk\<lparr>current_token := None, is_token_quoted := False,
              captured_comments := captured_comments tk @ fst (skip_comments (pending tk)),
              pending := []\<rparr>)"

text \<open>Modelled from the spec: \<^verbatim>\<open>is_eof\<close>, nothing of the stream is left to read.\<close>

definition is_eof :: "tokenizer \<Rightarrow> bool" where
  "is_eof tk = (pending tk = [])"

text \<open>Modelled from the spec: \<^verbatim>\<open>pull_captured_comments\<close> returns and clears the comments.\<close>

definition pull_captured_comments :: "tokenizer \<Rightarrow> string list \<times> tokenizer" where
  "pull_captured_comments tk = (captured_comments tk, tk\<lparr>captured_comments := []\<rparr>)"

definition clear_captured_comments :: "tokenizer \<Rightarrow> tokenizer" where
  "clear_captured_comments tk = tk\<lparr>captured_comments := []\<rparr>"

subsection \<open>Taxa, nodes and trees\<close>

text \<open>
  Modelled from the spec: the data model (\<^verbatim>\<open>dendropy.datamodel\<close>) is not among the
  sources. A taxon is an identity with a label, a taxon namespace an ordered collection of
  taxa; a node has an optional label, an optional taxon, an edge with an optional length,
  a comment list, an annotation set and its children in parse order.
\<close>

datatype taxon = Taxon (taxon_label: "string option")

type_synonym annotation = "string \<times> string"

datatype 'len node =
  Node (label: "string option") (taxon: "taxon option") (edge_length: "'len option")
       (comments: "string list") (annotations: "annotation set")
       (child_nodes: "'len node list")

text \<open>Modelled from the spec: \<^verbatim>\<open>tree.node_factory()\<close>, an empty node with an empty edge.\<close>

definition node_factory :: "'len node" where
  "node_factory = Node None None None [] {} []"

fun set_label :: "'len node \<Rightarrow> string option \<Rightarrow> 'len node" where
  "set_label (Node l t e c a ch) l' = Node l' t e c a ch"

fun set_taxon :: "'len node \<Rightarrow> taxon \<Rightarrow> 'len node" where
  "set_taxon (Node l t e c a ch) t' = Node l (Some t') e c a ch"

fun set_edge_length :: "'len node \<Rightarrow> 'len \<Rightarrow> 'len node" where
  "set_edge_length (Node l t e c a ch) e' = Node l t (Some e') c a ch"

fun append_comment :: "'len node \<Rightarrow> string \<Rightarrow> 'len node" where
  "append_comment (Node l t e c a ch) s = Node l t e (c @ [s]) a ch"

fun update_annotations :: "'len node \<Rightarrow> annotation set \<Rightarrow> 'len node" where
  "update_annotations (Node l t e c a ch) a' = Node l t e c (a \<union> a') ch"

text \<open>Modelled from the spec: \<^verbatim>\<open>add_child\<close> appends to the ordered child sequence.\<close>

fun add_child :: "'len node \<Rightarrow> 'len node \<Rightarrow> 'len node" where
  "add_child (Node l t e c a ch) n = Node l t e c a (ch @ [n])"

record 'len tree =
  is_rooted :: "bool option"
  weight :: "rat option"
  tree_comments :: "string list"
  tree_annotations :: "annotation set"
  seed_node :: "'len node"

text \<open>
  Modelled from the spec: \<^verbatim>\<open>tree_factory()\<close>, a tree with an empty seed node, rootedness
  and weight not yet set.
\<close>

definition tree_factory :: "'len tree" where
  "tree_factory =
     \<lparr>is_rooted = None, weight = None, tree_comments = [], tree_annotations = {},
      seed_node = node_factory\<rparr>"

subsection \<open>The reader and its configuration\<close>

text \<open>
  The attributes \<^verbatim>\<open>__init__\<close> sets. \<open>rooting\<close> is a string or \<^verbatim>\<open>None\<close>;
  \<open>edge_len_type\<close> is the cast applied to a branch-length token, which may raise;
  \<open>finish_node_func\<close> is \<^verbatim>\<open>None\<close> or a function applied to each finished node.
\<close>

record 'len reader =
  rooting :: "string option"
  edge_len_type :: "string option \<Rightarrow> error + 'len"
  suppress_edge_lengths :: bool
  extract_comment_metadata :: bool
  store_tree_weights :: bool
  encode_splits :: bool
  finish_node_func :: "('len node \<Rightarrow> 'len node) option"
  case_sensitive_taxon_labels :: bool
  preserve_underscores :: bool
  suppress_internal_node_taxa :: bool
  suppress_external_node_taxa :: bool
  allow_duplicate_taxon_labels :: bool

text \<open>\<^verbatim>\<open>_set_rooting\<close>: the property setter behind \<^verbatim>\<open>self.rooting = val\<close>.\<close>

definition set_rooting :: "'len reader \<Rightarrow> string option \<Rightarrow> error + 'len reader" where
  "set_rooting self val =
     (if val \<notin> set [Some ''force-unrooted'', Some ''force-rooted'', Some ''default-unrooted'',
                     Some ''default-rooted'', None]
      then Inl ValueError
      else Inr (self\<lparr>rooting := val\<rparr>))"

text \<open>
  The keyword arguments of \<^verbatim>\<open>__init__\<close>: each is absent (\<open>None\<close>) or given. The four
  legacy keywords carry a truth value; \<open>kw_rooting\<close>, when given, is a string or
  \<^verbatim>\<open>None\<close>; \<open>kw_other\<close> lists the names of any further keyword arguments.
\<close>

record 'len kwargs =
  kw_as_unrooted :: "bool option"
  kw_as_rooted :: "bool option"
  kw_default_as_rooted :: "bool option"
  kw_default_as_unrooted :: "bool option"
  kw_rooting :: "string option option"
  kw_edge_len_type :: "(string option \<Rightarrow> error + 'len) option"
  kw_suppress_edge_lengths :: "bool option"
  kw_extract_comment_metadata :: "bool option"
  kw_store_tree_weights :: "bool option"
  kw_encode_splits :: "bool option"
  kw_finish_node_func :: "('len node \<Rightarrow> 'len node) option option"
  kw_case_sensitive_taxon_labels :: "bool option"
  kw_preserve_underscores :: "bool option"
  kw_suppress_internal_node_taxa :: "bool option"
  kw_suppress_external_node_taxa :: "bool option"
  kw_allow_duplicate_taxon_labels :: "bool option"
  kw_other :: "string list"

text \<open>\<^verbatim>\<open>kwargs.pop(key, default)\<close>\<close>

definition pop :: "'a option \<Rightarrow> 'a \<Rightarrow> 'a" where
  "pop given dflt = (case given of None \<Rightarrow> dflt | Some v \<Rightarrow> v)"

text \<open>
  The special handling of the legacy signature: the value that ends up under the key
  \<^verbatim>\<open>"rooting"\<close>, or the \<^verbatim>\<open>ValueError\<close> raised. With more than one legacy keyword the
  source raises; with exactly one it translates it.
\<close>

definition legacy_rooting :: "'len kwargs \<Rightarrow> error + string option option" where
  "legacy_rooting kw =
     (if kw_as_unrooted kw \<noteq> None \<or> kw_as_rooted kw \<noteq> None
         \<or> kw_default_as_rooted kw \<noteq> None \<or> kw_default_as_unrooted kw \<noteq> None
      then
        (if kw_rooting kw \<noteq> None then Inl ValueError
         else if 1 < length (filter (\<lambda>k. k \<noteq> None)
                   [kw_as_unrooted kw, kw_as_rooted kw, kw_default_as_rooted kw,
                    kw_default_as_unrooted kw])
         then Inl ValueError
         else
           (case kw_as_unrooted kw of
              Some b \<Rightarrow> Inr (Some (Some (if b then ''force-unrooted'' else ''force-rooted'')))
            | None \<Rightarrow>
           (case kw_as_rooted kw of
              Some b \<Rightarrow> Inr (Some (Some (if b then ''force-rooted'' else ''force-unrooted'')))
            | None \<Rightarrow>
           (case kw_default_as_unrooted kw of
              Some b \<Rightarrow> Inr (Some (Some (if b then ''default-unrooted'' else ''default-rooted'')))
            | None \<Rightarrow>
           (case kw_default_as_rooted kw of
              Some b \<Rightarrow> Inr (Some (Some (if b then ''default-rooted'' else ''default-unrooted'')))
            | None \<Rightarrow> Inr (kw_rooting kw))))))
      else Inr (kw_rooting kw))"

text \<open>
  \<^verbatim>\<open>__init__\<close>. The built-in \<^verbatim>\<open>float\<close>, the default of \<^verbatim>\<open>edge_len_type\<close>, is the
  parameter \<open>float\<close>.
\<close>

definition init :: "(string option \<Rightarrow> error + 'len) \<Rightarrow> 'len kwargs \<Rightarrow> error + 'len reader" where
  "init float kw =
     (case legacy_rooting kw of
        Inl e \<Rightarrow> Inl e
      | Inr r \<Rightarrow>
          (case set_rooting
                  \<lparr>rooting = None,
                   edge_len_type = pop (kw_edge_len_type kw) float,
                   suppress_edge_lengths = pop (kw_suppress_edge_lengths kw) False,
                   extract_comment_metadata = pop (kw_extract_comment_metadata kw) False,
                   store_tree_weights = pop (kw_store_tree_weights kw) False,
                   encode_splits = pop (kw_encode_splits kw) False,
                   finish_node_func = pop (kw_finish_node_func kw) None,
                   case_sensitive_taxon_labels = pop (kw_case_sensitive_taxon_labels kw) False,
                   preserve_underscores = pop (kw_preserve_underscores kw) False,
                   suppress_internal_node_taxa = pop (kw_suppress_internal_node_taxa kw) True,
                   suppress_external_node_taxa = pop (kw_suppress_external_node_taxa kw) False,
                   allow_duplicate_taxon_labels = pop (kw_allow_duplicate_taxon_labels kw) False\<rparr>
                  (pop r (Some ''default-unrooted'')) of
             Inl e \<Rightarrow> Inl e
           | Inr self \<Rightarrow> if kw_other kw \<noteq> [] then Inl TypeError else Inr self))"

text \<open>A call of the constructor without any keyword argument.\<close>

definition no_kwargs :: "'len kwargs" where
  "no_kwargs =
     \<lparr>kw_as_unrooted = None, kw_as_rooted = None, kw_default_as_rooted = None,
      kw_default_as_unrooted = None, kw_rooting = None, kw_edge_len_type = None,
      kw_suppress_edge_lengths = None, kw_extract_comment_metadata = None,
      kw_store_tree_weights = None, kw_encode_splits = None, kw_finish_node_func = None,
      kw_case_sensitive_taxon_labels = None, kw_preserve_underscores = None,
      kw_suppress_internal_node_taxa = None, kw_suppress_external_node_taxa = None,
      kw_allow_duplicate_taxon_labels = None, kw_other = []\<rparr>"

subsection \<open>Rootedness\<close>

text \<open>\<^verbatim>\<open>_parse_tree_rooting_state\<close>: the result is \<^verbatim>\<open>True\<close>, \<^verbatim>\<open>False\<close> or \<^verbatim>\<open>None\<close>.\<close>

definition parse_tree_rooting_state :: "'len reader \<Rightarrow> string \<Rightarrow> error + bool option" where
  "parse_tree_rooting_state self rooting_comment =
     (if rooting self = Some ''force-unrooted'' then Inr (Some False)
      else if rooting self = Some ''force-rooted'' then Inr (Some True)
      else if rooting_comment = ''&R'' \<or> rooting_comment = ''&r'' then Inr (Some True)
      else if rooting_comment = ''&U'' \<or> rooting_comment = ''&u'' then Inr (Some False)
      else if rooting self = Some ''default-rooted'' then Inr (Some True)
      else if rooting self = Some ''default-unrooted'' then Inr (Some False)
      else if rooting self = None then Inr None
      else Inl TypeError)"

subsection \<open>Comments of a tree\<close>

text \<open>
  The body of the \<^verbatim>\<open>try\<close> in \<^verbatim>\<open>_process_tree_comments\<close>. Its first expression reads
  the name \<^verbatim>\<open>stream_tokenizer\<close>, which is neither a local, nor a parameter, nor a name the
  module binds or imports, nor a built-in: looking it up raises \<^verbatim>\<open>NameError\<close>, whatever
  the comment, before anything is split or evaluated.
\<close>

definition tree_weight_expression :: "string \<Rightarrow> error + rat" where
  "tree_weight_expression comment = Inl NameError"

text \<open>
  The \<^verbatim>\<open>try\<close> statement around it: a value is stored as the weight;
  \<^verbatim>\<open>except IndexError: pass\<close> and \<^verbatim>\<open>except ValueError: pass\<close> leave the tree as it is;
  any other exception propagates.
\<close>

definition try_tree_weight :: "error + rat \<Rightarrow> 'len tree \<Rightarrow> error + 'len tree" where
  "try_tree_weight body tree =
     (case body of
        Inr w \<Rightarrow> Inr (tree\<lparr>weight := Some w\<rparr>)
      | Inl e \<Rightarrow> if e = IndexError then Inr tree
                 else if e = ValueError then Inr tree
                 else Inl e)"

definition is_rooting_comment :: "string \<Rightarrow> bool" where
  "is_rooting_comment comment = (comment \<in> set [''&u'', ''&U'', ''&r'', ''&R''])"

definition is_weight_comment :: "string \<Rightarrow> bool" where
  "is_weight_comment comment = (startswith comment ''&W'' \<or> startswith comment ''&w'')"

text \<open>
  The \<^verbatim>\<open>for\<close> loop of \<^verbatim>\<open>_process_tree_comments\<close>, over the tree and the two flags
  \<^verbatim>\<open>rooting_token_found\<close> and \<^verbatim>\<open>weighting_token_found\<close>. \<open>pcm\<close> is
  \<^verbatim>\<open>nexusprocessing.parse_comment_metadata_to_annotations\<close>, which is not among the sources
  and is taken as a parameter; an empty set is the falsy result.
\<close>

fun tree_comments_loop ::
  "'len reader \<Rightarrow> (string \<Rightarrow> annotation set) \<Rightarrow> 'len tree \<Rightarrow> bool \<Rightarrow> bool \<Rightarrow> string list
     \<Rightarrow> error + 'len tree \<times> bool \<times> bool" where
  "tree_comments_loop self pcm tree rfound wfound [] = Inr (tree, rfound, wfound)"
| "tree_comments_loop self pcm tree rfound wfound (comment # rest) =
     (if is_rooting_comment comment then
        (case parse_tree_rooting_state self comment of
           Inl e \<Rightarrow> Inl e
         | Inr r \<Rightarrow> tree_comments_loop self pcm (tree\<lparr>is_rooted := r\<rparr>) True wfound rest)
      else if is_weight_comment comment then
        (if store_tree_weights self then
           (case try_tree_weight (tree_weight_expression comment) tree of
              Inl e \<Rightarrow> Inl e
            | Inr tree' \<Rightarrow> tree_comments_loop self pcm tree' rfound True rest)
         else
           tree_comments_loop self pcm
             (tree\<lparr>tree_comments := tree_comments tree @ [comment]\<rparr>) rfound True rest)
      else if extract_comment_metadata self \<and> startswith comment ''&'' then
        (if pcm comment \<noteq> {} then
           tree_comments_loop self pcm
             (tree\<lparr>tree_annotations := tree_annotations tree \<union> pcm comment\<rparr>) rfound wfound rest
         else
           tree_comments_loop self pcm
             (tree\<lparr>tree_comments := tree_comments tree @ [comment]\<rparr>) rfound wfound rest)
      else
        tree_comments_loop self pcm
          (tree\<lparr>tree_comments := tree_comments tree @ [comment]\<rparr>) rfound wfound rest)"

text \<open>\<^verbatim>\<open>_process_tree_comments\<close>\<close>

definition process_tree_comments ::
  "'len reader \<Rightarrow> (string \<Rightarrow> annotation set) \<Rightarrow> 'len tree \<Rightarrow> string list \<Rightarrow> error + 'len tree" where
  "process_tree_comments self pcm tree cs =
     (case tree_comments_loop self pcm tree False False cs of
        Inl e \<Rightarrow> Inl e
      | Inr (tree1, rooting_token_found, weighting_token_found) \<Rightarrow>
          (case (if \<not> rooting_token_found
                 then (case parse_tree_rooting_state self [] of
                         Inl e \<Rightarrow> Inl e
                       | Inr r \<Rightarrow> Inr (tree1\<lparr>is_rooted := r\<rparr>))
                 else Inr tree1) of
             Inl e \<Rightarrow> Inl e
           | Inr tree2 \<Rightarrow>
               Inr (if store_tree_weights self \<and> \<not> weighting_token_found
                    then tree2\<lparr>weight := Some 1\<rparr> else tree2)))"

subsection \<open>Comments of a node\<close>

text \<open>\<^verbatim>\<open>_process_node_comments\<close>\<close>

fun process_node_comments ::
  "'len reader \<Rightarrow> (string \<Rightarrow> annotation set) \<Rightarrow> 'len node \<Rightarrow> string list \<Rightarrow> 'len node" where
  "process_node_comments self pcm node [] = node"
| "process_node_comments self pcm node (comment # rest) =
     (if extract_comment_metadata self \<and> startswith comment ''&'' then
        (if pcm comment \<noteq> {} then
           process_node_comments self pcm (update_annotations node (pcm comment)) rest
         else process_node_comments self pcm (append_comment node comment) rest)
      else process_node_comments self pcm (append_comment node comment) rest)"

text \<open>\<^verbatim>\<open>_finish_node\<close>\<close>

definition finish_node :: "'len reader \<Rightarrow> 'len node \<Rightarrow> 'len node" where
  "finish_node self node =
     (case finish_node_func self of None \<Rightarrow> node | Some f \<Rightarrow> f node)"

subsection \<open>The state of a parse\<close>

text \<open>
  What a parse mutates: the tokenizer, the taxon namespace behind the caller's
  \<^verbatim>\<open>taxon_symbol_map_func\<close>, and the reader's attribute \<^verbatim>\<open>tree_statement_complete\<close>
  (\<^verbatim>\<open>None\<close> after construction).
\<close>

record pstate =
  nexus_tokenizer :: tokenizer
  taxon_namespace :: "taxon list"
  tree_statement_complete :: "bool option"

type_synonym mapper = "string option \<Rightarrow> taxon list \<Rightarrow> error + taxon \<times> taxon list"

text \<open>
  The label branch of \<^verbatim>\<open>_parse_tree_node_description\<close>, up to \<^verbatim>\<open>label_parsed = True\<close>.
  \<^verbatim>\<open>is_internal_node\<close> is \<^verbatim>\<open>None\<close>, \<^verbatim>\<open>True\<close> or \<^verbatim>\<open>False\<close>, and only \<^verbatim>\<open>True\<close> is truthy.
  A current token \<^verbatim>\<open>None\<close> has no \<^verbatim>\<open>replace\<close>.
\<close>

definition store_label ::
  "'len reader \<Rightarrow> mapper \<Rightarrow> bool option \<Rightarrow> string option \<Rightarrow> taxon list \<Rightarrow> 'len node
     \<Rightarrow> error + taxon list \<times> 'len node" where
  "store_label self taxon_symbol_map_func is_internal_node lbl ns current_node =
     (if (is_internal_node = Some True \<and> suppress_internal_node_taxa self)
         \<or> (is_internal_node \<noteq> Some True \<and> suppress_external_node_taxa self)
      then Inr (ns, set_label current_node lbl)
      else (case taxon_symbol_map_func lbl ns of
              Inl e \<Rightarrow> Inl e
            | Inr (tx, ns') \<Rightarrow> Inr (ns', set_taxon current_node tx)))"

definition parse_label ::
  "'len reader \<Rightarrow> mapper \<Rightarrow> bool option \<Rightarrow> tokenizer \<Rightarrow> taxon list \<Rightarrow> 'len node
     \<Rightarrow> error + taxon list \<times> 'len node" where
  "parse_label self taxon_symbol_map_func is_internal_node tk ns current_node =
     (if \<not> preserve_underscores self \<and> \<not> is_token_quoted tk then
        (case current_token tk of
           None \<Rightarrow> Inl AttributeError
         | Some t \<Rightarrow>
             store_label self taxon_symbol_map_func is_internal_node
               (Some (replace_underscores t)) ns current_node)
      else
        store_label self taxon_symbol_map_func is_internal_node (current_token tk) ns
          current_node)"

subsection \<open>The recursive descent over a node description\<close>

text \<open>
  A blank child, as the source creates it in three places: a new node takes the comments
  captured so far, is finished and becomes the last child of the current node.
\<close>

definition blank_child ::
  "'len reader \<Rightarrow> (string \<Rightarrow> annotation set) \<Rightarrow> tokenizer \<Rightarrow> 'len node \<Rightarrow> tokenizer \<times> 'len node" where
  "blank_child self pcm tk current_node =
     (snd (pull_captured_comments tk),
      add_child current_node
        (finish_node self
           (process_node_comments self pcm node_factory (fst (pull_captured_comments tk)))))"

text \<open>
  The inner loop \<^verbatim>\<open>while nexus_tokenizer.current_token == ","\<close>: one more blank child
  for each further separator.
\<close>

function blank_run ::
  "'len reader \<Rightarrow> (string \<Rightarrow> annotation set) \<Rightarrow> tokenizer \<Rightarrow> 'len node
     \<Rightarrow> error + tokenizer \<times> 'len node" where
  "blank_run self pcm tk current_node =
     (if current_token tk = Some '','' then
        (case require_next_token (fst (blank_child self pcm tk current_node)) of
           Inl e \<Rightarrow> Inl e
         | Inr tk1 \<Rightarrow> blank_run self pcm tk1 (snd (blank_child self pcm tk current_node)))
      else Inr (tk, current_node))"
  by pat_completeness auto
termination
proof (relation "measure (\<lambda>(self, pcm, tk, current_node). length (pending tk))")
  show "wf (measure (\<lambda>(self, pcm, tk, current_node). length (pending tk)))"
    by simp
next
  fix self :: "'len reader" and pcm tk and current_node :: "'len node" and tk1
  assume r: "require_next_token (fst (blank_child self pcm tk current_node)) = Inr tk1"
  have le: "length (snd (skip_comments xs)) \<le> length xs" for xs
    by (induction xs rule: skip_comments.induct) auto
  have "length (pending tk1) < length (pending tk)"
    using r le [of "pending tk"]
    by (auto simp: require_next_token_def blank_child_def pull_captured_comments_def
             split: list.splits item.splits)
  then show "((self, pcm, tk1, snd (blank_child self pcm tk current_node)),
              (self, pcm, tk, current_node))
             \<in> measure (\<lambda>(self, pcm, tk, current_node). length (pending tk))"
    by simp
qed

text \<open>
  The second \<^verbatim>\<open>while True\<close> loop of \<^verbatim>\<open>_parse_tree_node_description\<close>: edge length,
  end of the node, end of the statement, or the label. \<open>cs\<close> is
  \<^verbatim>\<open>current_node_comments\<close> on entry to the iteration.
\<close>

function label_loop ::
  "'len reader \<Rightarrow> (string \<Rightarrow> annotation set) \<Rightarrow> mapper \<Rightarrow> bool option \<Rightarrow> pstate \<Rightarrow> 'len node
     \<Rightarrow> string list \<Rightarrow> bool \<Rightarrow> error + pstate \<times> 'len node" where
  "label_loop self pcm taxon_symbol_map_func is_internal_node st current_node cs label_parsed =
     (let tk = snd (pull_captured_comments (nexus_tokenizer st));
          current_node_comments = cs @ fst (pull_captured_comments (nexus_tokenizer st))
      in
      if current_token tk = Some '':'' then
        (case require_next_token tk of
           Inl e \<Rightarrow> Inl e
         | Inr tk1 \<Rightarrow>
             if \<not> suppress_edge_lengths self then
               (case edge_len_type self (current_token tk1) of
                  Inl e \<Rightarrow>
                    if e = ValueError then Inl NewickReaderMalformedStatementError else Inl e
                | Inr len \<Rightarrow>
                    (case require_next_token tk1 of
                       Inl e \<Rightarrow> Inl e
                     | Inr tk2 \<Rightarrow>
                         label_loop self pcm taxon_symbol_map_func is_internal_node
                           (st\<lparr>nexus_tokenizer := tk2\<rparr>) (set_edge_length current_node len)
                           current_node_comments label_parsed))
             else
               (case require_next_token tk1 of
                  Inl e \<Rightarrow> Inl e
                | Inr tk2 \<Rightarrow>
                    label_loop self pcm taxon_symbol_map_func is_internal_node
                      (st\<lparr>nexus_tokenizer := tk2\<rparr>) current_node current_node_comments
                      label_parsed))
      else if current_token tk = Some '')'' then
        Inr (st\<lparr>nexus_tokenizer := tk\<rparr>,
             finish_node self (process_node_comments self pcm current_node current_node_comments))
      else if current_token tk = Some '';'' then
        Inr (st\<lparr>nexus_tokenizer := next_token tk, tree_statement_complete := Some True\<rparr>,
             finish_node self (process_node_comments self pcm current_node current_node_comments))
      else if current_token tk = Some '','' then
        Inr (st\<lparr>nexus_tokenizer := tk\<rparr>,
             finish_node self (process_node_comments self pcm current_node current_node_comments))
      else if current_token tk = Some ''('' then Inl NewickReaderMalformedStatementError
      else if label_parsed then Inl NewickReaderMalformedStatementError
      else
        (case parse_label self taxon_symbol_map_func is_internal_node tk (taxon_namespace st)
                current_node of
           Inl e \<Rightarrow> Inl e
         | Inr (ns, node1) \<Rightarrow>
             (case require_next_token tk of
                Inl e \<Rightarrow> Inl e
              | Inr tk1 \<Rightarrow>
                  label_loop self pcm taxon_symbol_map_func is_internal_node
                    (st\<lparr>nexus_tokenizer := tk1, taxon_namespace := ns\<rparr>) node1
                    current_node_comments True)))"
  by pat_completeness auto
termination
proof -
  have le: "length (snd (skip_comments xs)) \<le> length xs" for xs
    by (induction xs rule: skip_comments.induct) auto
  have adv: "length (pending b) < length (pending a)" if "require_next_token a = Inr b" for a b
    using that le [of "pending a"]
    by (auto simp: require_next_token_def split: list.splits item.splits)
  show ?thesis
    apply (relation "measure (\<lambda>(self, pcm, f, i, st, n, cs, lp). length (pending (nexus_tokenizer st)))")
       apply simp
      apply (auto simp: pull_captured_comments_def dest!: adv)
    done
qed


text \<open>
  \<^verbatim>\<open>_parse_tree_node_description\<close> and its first \<^verbatim>\<open>while True\<close> loop over the children
  (\<open>parse_child_nodes\<close>, with the flag \<^verbatim>\<open>node_created\<close>). The two call each other; the
  first argument bounds the depth of the calls, and \<open>None\<close> means that the bound was
  reached.
\<close>

fun parse_tree_node_description ::
  "nat \<Rightarrow> 'len reader \<Rightarrow> (string \<Rightarrow> annotation set) \<Rightarrow> mapper \<Rightarrow> pstate \<Rightarrow> 'len node
     \<Rightarrow> bool option \<Rightarrow> (error + pstate \<times> 'len node) option"
and parse_child_nodes ::
  "nat \<Rightarrow> 'len reader \<Rightarrow> (string \<Rightarrow> annotation set) \<Rightarrow> mapper \<Rightarrow> pstate \<Rightarrow> 'len node
     \<Rightarrow> bool \<Rightarrow> (error + pstate \<times> 'len node) option" where
  "parse_tree_node_description 0 self pcm taxon_symbol_map_func st current_node
     is_internal_node = None"
| "parse_tree_node_description (Suc fuel) self pcm taxon_symbol_map_func st current_node
     is_internal_node =
     (let current_node_comments = fst (pull_captured_comments (nexus_tokenizer st));
          tk = snd (pull_captured_comments (nexus_tokenizer st))
      in
      if current_token tk = Some ''('' then
        (case require_next_token tk of
           Inl e \<Rightarrow> Some (Inl e)
         | Inr tk1 \<Rightarrow>
             (case parse_child_nodes fuel self pcm taxon_symbol_map_func
                     (st\<lparr>nexus_tokenizer := tk1\<rparr>) current_node False of
                None \<Rightarrow> None
              | Some (Inl e) \<Rightarrow> Some (Inl e)
              | Some (Inr (st1, node1)) \<Rightarrow>
                  Some (label_loop self pcm taxon_symbol_map_func
                          (if is_internal_node = None
                           then (if child_nodes node1 \<noteq> [] then Some True else None)
                           else is_internal_node)
                          (st1\<lparr>tree_statement_complete := Some False\<rparr>) node1
                          current_node_comments False)))
      else
        Some (label_loop self pcm taxon_symbol_map_func
                (if is_internal_node = None
                 then (if child_nodes current_node \<noteq> [] then Some True else None)
                 else is_internal_node)
                (st\<lparr>nexus_tokenizer := tk, tree_statement_complete := Some False\<rparr>)
                current_node current_node_comments False))"
| "parse_child_nodes 0 self pcm taxon_symbol_map_func st current_node node_created = None"
| "parse_child_nodes (Suc fuel) self pcm taxon_symbol_map_func st current_node node_created =
     (let tk = nexus_tokenizer st in
      if current_token tk = Some '','' then
        (let b = (if \<not> node_created then blank_child self pcm tk current_node
                  else (tk, current_node))
         in
         case require_next_token (fst b) of
           Inl e \<Rightarrow> Some (Inl e)
         | Inr tk1 \<Rightarrow>
             (case blank_run self pcm tk1 (snd b) of
                Inl e \<Rightarrow> Some (Inl e)
              | Inr (tk2, node2) \<Rightarrow>
                  if \<not> node_created \<and> current_token tk2 = Some '')'' then
                    parse_child_nodes fuel self pcm taxon_symbol_map_func
                      (st\<lparr>nexus_tokenizer := fst (blank_child self pcm tk2 node2)\<rparr>)
                      (snd (blank_child self pcm tk2 node2)) True
                  else
                    parse_child_nodes fuel self pcm taxon_symbol_map_func
                      (st\<lparr>nexus_tokenizer := tk2\<rparr>) node2 node_created))
      else if current_token tk = Some '')'' then
        (case require_next_token tk of
           Inl e \<Rightarrow> Some (Inl e)
         | Inr tk1 \<Rightarrow> Some (Inr (st\<lparr>nexus_tokenizer := tk1\<rparr>, current_node)))
      else
        (case parse_tree_node_description fuel self pcm taxon_symbol_map_func
                (st\<lparr>nexus_tokenizer := snd (pull_captured_comments tk)\<rparr>)
                (process_node_comments self pcm node_factory
                   (fst (pull_captured_comments tk)))
                (Some (current_token tk = Some ''('')) of
           None \<Rightarrow> None
         | Some (Inl e) \<Rightarrow> Some (Inl e)
         | Some (Inr (st1, new_node)) \<Rightarrow>
             parse_child_nodes fuel self pcm taxon_symbol_map_func st1
               (add_child current_node new_node) True))"

subsection \<open>A tree statement\<close>

text \<open>
  The first loop of \<^verbatim>\<open>_parse_tree_statement\<close>: skip semicolons up to the token that opens
  the statement, keeping the comments pulled last.
\<close>

function statement_start :: "tokenizer \<Rightarrow> string list \<Rightarrow> error + tokenizer \<times> string list" where
  "statement_start tk cs =
     (if (current_token tk = Some '';'' \<or> current_token tk = None) \<and> \<not> is_eof tk then
        (case require_next_token tk of
           Inl e \<Rightarrow> Inl e
         | Inr tk1 \<Rightarrow>
             statement_start (snd (pull_captured_comments tk1))
               (fst (pull_captured_comments tk1)))
      else Inr (tk, cs))"
  by pat_completeness auto
termination
proof -
  have le: "length (snd (skip_comments xs)) \<le> length xs" for xs
    by (induction xs rule: skip_comments.induct) auto
  have adv: "length (pending b) < length (pending a)" if "require_next_token a = Inr b" for a b
    using that le [of "pending a"]
    by (auto simp: require_next_token_def split: list.splits item.splits)
  show ?thesis
    apply (relation "measure (\<lambda>(tk, cs). length (pending tk))")
     apply simp
    apply (auto simp: pull_captured_comments_def dest!: adv)
    done
qed

text \<open>The last loop of \<^verbatim>\<open>_parse_tree_statement\<close>: consume the semicolons that follow.\<close>

function trailing_semicolons :: "tokenizer \<Rightarrow> tokenizer" where
  "trailing_semicolons tk =
     (if current_token tk = Some '';'' \<and> \<not> is_eof tk
      then trailing_semicolons (next_token (clear_captured_comments tk))
      else tk)"
  by pat_completeness auto
termination
proof -
  have le: "length (snd (skip_comments xs)) \<le> length xs" for xs
    by (induction xs rule: skip_comments.induct) auto
  have adv: "length (pending (next_token (clear_captured_comments a))) < length (pending a)"
    if "\<not> is_eof a" for a
    using that le [of "pending a"]
    by (auto simp: next_token_def clear_captured_comments_def is_eof_def
             split: list.splits item.splits)
  show ?thesis
    apply (relation "measure (\<lambda>tk. length (pending tk))")
     apply simp
    apply (auto dest!: adv)
    done
qed

text \<open>
  \<^verbatim>\<open>_parse_tree_statement\<close>: \<open>Inr (st, None)\<close> is the return of \<^verbatim>\<open>None\<close> at the end of
  the stream. The bound given to the descent is more than twice the number of items left.
\<close>

definition parse_tree_statement ::
  "'len reader \<Rightarrow> (string \<Rightarrow> annotation set) \<Rightarrow> mapper \<Rightarrow> pstate
     \<Rightarrow> (error + pstate \<times> 'len tree option) option" where
  "parse_tree_statement self pcm taxon_symbol_map_func st =
     (case statement_start (snd (pull_captured_comments (nexus_tokenizer st)))
             (fst (pull_captured_comments (nexus_tokenizer st))) of
        Inl e \<Rightarrow> Some (Inl e)
      | Inr (tk, cs) \<Rightarrow>
          if is_eof tk then Some (Inr (st\<lparr>nexus_tokenizer := tk\<rparr>, None))
          else if current_token tk \<noteq> Some ''('' then Some (Inl NewickReaderInvalidTokenError)
          else
            (case process_tree_comments self pcm tree_factory cs of
               Inl e \<Rightarrow> Some (Inl e)
             | Inr tree \<Rightarrow>
                 (case parse_tree_node_description (2 * length (pending tk) + 3) self pcm
                         taxon_symbol_map_func
                         (st\<lparr>nexus_tokenizer := tk, tree_statement_complete := Some False\<rparr>)
                         (seed_node tree) None of
                    None \<Rightarrow> None
                  | Some (Inl e) \<Rightarrow> Some (Inl e)
                  | Some (Inr (st1, seed)) \<Rightarrow>
                      if tree_statement_complete st1 \<noteq> Some True
                      then Some (Inl NewickReaderIncompleteTreeStatementError)
                      else Some (Inr (st1\<lparr>nexus_tokenizer :=
                                           trailing_semicolons (nexus_tokenizer st1)\<rparr>,
                                      Some (tree\<lparr>seed_node := seed\<rparr>))))))"

subsection \<open>The generator\<close>

text \<open>
  \<^verbatim>\<open>tree_iter\<close> is a generator: its body runs from one \<^verbatim>\<open>yield\<close> to the next on each
  request. \<open>Running\<close> is the generator before its first request, \<open>Suspended st tree\<close>
  the generator stopped at \<^verbatim>\<open>yield tree\<close>, \<open>Finished\<close> the generator after its body has
  ended or raised. A request yields a value, or finds the generator ended
  (\<open>StopIteration\<close>), or raises an error of the parse. \<^verbatim>\<open>raise StopIteration\<close> in the
  body ends the generator, as it does in the Python versions the source was written for.
\<close>

datatype 'len generator = Running pstate | Suspended pstate "'len tree option" | Finished

datatype 'len outcome = Yield "'len tree option" | StopIteration | Raise error

text \<open>One request: the body of \<^verbatim>\<open>tree_iter\<close> from where it stopped to its next \<^verbatim>\<open>yield\<close>.\<close>

fun next_tree ::
  "'len reader \<Rightarrow> (string \<Rightarrow> annotation set) \<Rightarrow> mapper \<Rightarrow> 'len generator
     \<Rightarrow> ('len outcome \<times> 'len generator) option" where
  "next_tree self pcm m Finished = Some (StopIteration, Finished)"
| "next_tree self pcm m (Running st) =
     (case parse_tree_statement self pcm m st of
        None \<Rightarrow> None
      | Some (Inl e) \<Rightarrow> Some (Raise e, Finished)
      | Some (Inr (st1, tree)) \<Rightarrow> Some (Yield tree, Suspended st1 tree))"
| "next_tree self pcm m (Suspended st tree) =
     (if tree = None then Some (StopIteration, Finished)
      else
        (case parse_tree_statement self pcm m st of
           None \<Rightarrow> None
         | Some (Inl e) \<Rightarrow> Some (Raise e, Finished)
         | Some (Inr (st1, tree1)) \<Rightarrow> Some (Yield tree1, Suspended st1 tree1)))"

text \<open>
  The call \<^verbatim>\<open>tree_iter(stream, taxon_symbol_mapper, tree_factory)\<close>; \<open>ns\<close> is the
  namespace behind the mapper.
\<close>

definition tree_iter :: "item list \<Rightarrow> taxon list \<Rightarrow> 'len generator" where
  "tree_iter stream ns =
     Running \<lparr>nexus_tokenizer = NexusTokenizer stream, taxon_namespace = ns,
              tree_statement_complete = None\<rparr>"

text \<open>The outcomes of the first \<open>n\<close> requests made to a generator.\<close>

fun requests ::
  "nat \<Rightarrow> 'len reader \<Rightarrow> (string \<Rightarrow> annotation set) \<Rightarrow> mapper \<Rightarrow> 'len generator
     \<Rightarrow> 'len outcome list option" where
  "requests 0 self pcm m g = Some []"
| "requests (Suc n) self pcm m g =
     (case next_tree self pcm m g of
        None \<Rightarrow> None
      | Some (y, g') \<Rightarrow> map_option ((#) y) (requests n self pcm m g'))"

subsection \<open>Collaborators and inputs used in the examples\<close>

text \<open>
  The taxon mapper is an argument of \<^verbatim>\<open>tree_iter\<close>, and the class of the one that
  \<^verbatim>\<open>_read\<close> passes, \<^verbatim>\<open>NexusTaxonSymbolMapper\<close>, is not among the sources. The examples
  use this one: the taxon of that label in the namespace, created and appended when
  there is none yet.
\<close>

definition require_taxon_for_symbol :: mapper where
  "require_taxon_for_symbol lbl ns =
     (if Taxon lbl \<in> set ns then Inr (Taxon lbl, ns) else Inr (Taxon lbl, ns @ [Taxon lbl]))"

text \<open>A metadata parser that finds no annotation in any comment.\<close>

definition no_metadata :: "string \<Rightarrow> annotation set" where
  "no_metadata comment = {}"

text \<open>
  An edge length type: a cast that accepts the unsigned decimal numerals and raises
  \<^verbatim>\<open>ValueError\<close> on any other string, as \<^verbatim>\<open>int\<close> does on them.
\<close>

definition decimal :: "string option \<Rightarrow> error + nat" where
  "decimal tok =
     (case tok of
        None \<Rightarrow> Inl TypeError
      | Some s \<Rightarrow>
          if s \<noteq> [] \<and> list_all (\<lambda>c. c \<in> set ''0123456789'') s
          then Inr (foldl (\<lambda>n c. 10 * n + (of_char c - 48)) 0 s)
          else Inl ValueError)"

text \<open>A stream of unquoted tokens without comments.\<close>

definition tokens :: "string list \<Rightarrow> item list" where
  "tokens ts = map (\<lambda>t. Token t False) ts"

text \<open>The reader constructed without keyword arguments, with \<open>decimal\<close> for \<^verbatim>\<open>float\<close>.\<close>

definition reader0 :: "nat reader" where
  "reader0 = \<lparr>rooting = Some ''default-unrooted'', edge_len_type = decimal,
     suppress_edge_lengths = False, extract_comment_metadata = False, store_tree_weights = False,
     encode_splits = False, finish_node_func = None, case_sensitive_taxon_labels = False,
     preserve_underscores = False, suppress_internal_node_taxa = True,
     suppress_external_node_taxa = False, allow_duplicate_taxon_labels = False\<rparr>"

text \<open>The values that the examples produce: a leaf bound to a taxon, a blank node, a tree
  with an unlabelled seed node, and the state of a parse that has read its whole stream.\<close>

definition leaf :: "string \<Rightarrow> nat node" where
  "leaf l = Node None (Some (Taxon (Some l))) None [] {} []"

definition blank :: "nat node" where
  "blank = Node None None None [] {} []"

definition example_tree :: "bool option \<Rightarrow> nat node list \<Rightarrow> nat tree" where
  "example_tree r ch =
     \<lparr>is_rooted = r, weight = None, tree_comments = [], tree_annotations = {},
      seed_node = Node None None None [] {} ch\<rparr>"

definition end_state :: "string list \<Rightarrow> pstate" where
  "end_state ls =
     \<lparr>nexus_tokenizer = \<lparr>current_token = None, is_token_quoted = False,
                          captured_comments = [], pending = []\<rparr>,
      taxon_namespace = map (\<lambda>l. Taxon (Some l)) ls,
      tree_statement_complete = Some True\<rparr>"

text \<open>The state of a parse inside a node description: a current token, one more token,
  and the end of the statement.\<close>

definition node_state :: "string \<Rightarrow> string \<Rightarrow> pstate" where
  "node_state c t =
     \<lparr>nexus_tokenizer = \<lparr>current_token = Some c, is_token_quoted = False,
                          captured_comments = [],
                          pending = [Token t False, Token '')'' False, Token '';'' False]\<rparr>,
      taxon_namespace = [],
      tree_statement_complete = Some False\<rparr>"

subsection \<open>Notions used in the statements\<close>

text \<open>
  The tokens that the label loop of \<^verbatim>\<open>_parse_tree_node_description\<close> tests for before it
  takes the current token for a label.
\<close>

definition structural :: "string option \<Rightarrow> bool" where
  "structural t = (t \<in> set [Some '':'', Some '')'', Some '';'', Some '','', Some ''(''])"

text \<open>
  What is left for a parse to consume: every item of the stream that is still to be read
  counts twice, the current token once.
\<close>

definition budget :: "tokenizer \<Rightarrow> nat" where
  "budget tk = 2 * length (pending tk) + (if current_token tk = None then 0 else 1)"

text \<open>A reader with other values of the two options on taxon labels.\<close>

definition relabelled :: "bool \<Rightarrow> bool \<Rightarrow> 'len reader \<Rightarrow> 'len reader" where
  "relabelled a b self =
     self\<lparr>case_sensitive_taxon_labels := a, allow_duplicate_taxon_labels := b\<rparr>"

section \<open>Properties\<close>

text \<open>
  The equations of the loops are unfolded by hand, one iteration at a time, and are not
  left to the simplifier.
\<close>

declare blank_run.simps [simp del]
declare label_loop.simps [simp del]
declare statement_start.simps [simp del]
declare trailing_semicolons.simps [simp del]
declare parse_tree_node_description.simps [simp del]
declare parse_child_nodes.simps [simp del]

subsection \<open>The bound of the descent is never reached\<close>

text \<open>
  Every step of the descent consumes a part of the stream or ends, so the bound that
  \<open>parse_tree_statement\<close> gives to the descent is never reached: a tree statement is
  parsed, or an error is raised, whatever the stream.
\<close>

lemma skip_comments_length: "length (snd (skip_comments xs)) \<le> length xs"
  by (induction xs rule: skip_comments.induct) auto

lemma require_next_token_budget:
  "require_next_token tk = Inr tk' \<Longrightarrow> budget tk' < budget tk"
  using skip_comments_length [of "pending tk"]
  by (auto simp: require_next_token_def budget_def split: list.splits item.splits)

lemma next_token_budget:
  "current_token tk \<noteq> None \<Longrightarrow> budget (next_token tk) < budget tk"
  using skip_comments_length [of "pending tk"]
  by (auto simp: next_token_def budget_def split: list.splits item.splits)

lemma pull_budget [simp]:
  "budget (snd (pull_captured_comments tk)) = budget tk"
  "current_token (snd (pull_captured_comments tk)) = current_token tk"
  by (simp_all add: pull_captured_comments_def budget_def)

lemma blank_child_budget [simp]:
  "budget (fst (blank_child self pcm tk node)) = budget tk"
  "current_token (fst (blank_child self pcm tk node)) = current_token tk"
  by (simp_all add: blank_child_def)

lemma blank_run_budget:
  "blank_run self pcm tk node = Inr (tk', n) \<Longrightarrow> budget tk' \<le> budget tk"
proof (induction self pcm tk node rule: blank_run.induct)
  case (1 self pcm tk current_node)
  show ?case
  proof (cases "current_token tk = Some '',''")
    case False
    with "1.prems" show ?thesis by (simp add: blank_run.simps)
  next
    case True
    with "1.prems" obtain tk1 where
      r: "require_next_token (fst (blank_child self pcm tk current_node)) = Inr tk1" and
      b: "blank_run self pcm tk1 (snd (blank_child self pcm tk current_node)) = Inr (tk', n)"
      by (subst (asm) blank_run.simps) (auto split: sum.splits)
    from "1.IH" [OF True r b] require_next_token_budget [OF r] show ?thesis
      by simp
  qed
qed

lemma label_loop_budget:
  "label_loop self pcm m i st node cs lp = Inr (sta, n) \<Longrightarrow>
     budget (nexus_tokenizer sta) \<le> budget (nexus_tokenizer st)
     \<and> (current_token (nexus_tokenizer st) \<noteq> Some '')''
          \<and> current_token (nexus_tokenizer st) \<noteq> Some '',''
        \<longrightarrow> budget (nexus_tokenizer sta) < budget (nexus_tokenizer st))"
proof (induction self pcm m i st node cs lp rule: label_loop.induct)
  case (1 self pcm m i st node cs lp)
  let ?tk = "snd (pull_captured_comments (nexus_tokenizer st))"
  let ?cs = "cs @ fst (pull_captured_comments (nexus_tokenizer st))"
  consider (colon) "current_token ?tk = Some '':''"
    | (stop) "current_token ?tk = Some '')'' \<or> current_token ?tk = Some '',''"
    | (semi) "current_token ?tk = Some '';''"
    | (paren) "current_token ?tk = Some ''(''"
    | (other) "current_token ?tk \<noteq> Some '':''" "current_token ?tk \<noteq> Some '')''"
        "current_token ?tk \<noteq> Some '';''" "current_token ?tk \<noteq> Some '',''"
        "current_token ?tk \<noteq> Some ''(''"
    by blast
  then show ?case
  proof cases
    case colon
    with "1.prems" obtain tk1 tk2 node2 where
      r1: "require_next_token ?tk = Inr tk1" and
      r2: "require_next_token tk1 = Inr tk2" and
      l: "label_loop self pcm m i (st\<lparr>nexus_tokenizer := tk2\<rparr>) node2 ?cs lp = Inr (sta, n)" and
      d: "(\<not> suppress_edge_lengths self \<and>
            (\<exists>len. edge_len_type self (current_token tk1) = Inr len
                   \<and> node2 = set_edge_length node len))
          \<or> (suppress_edge_lengths self \<and> node2 = node)"
      by (subst (asm) label_loop.simps)
         (auto simp: Let_def split: sum.splits if_splits)
    from d have "budget (nexus_tokenizer sta) \<le> budget tk2"
    proof
      assume "\<not> suppress_edge_lengths self \<and>
            (\<exists>len. edge_len_type self (current_token tk1) = Inr len
                   \<and> node2 = set_edge_length node len)"
      then obtain len where
        s: "\<not> suppress_edge_lengths self" and
        e: "edge_len_type self (current_token tk1) = Inr len" and
        n2: "node2 = set_edge_length node len"
        by blast
      from "1.IH"(1) [OF refl refl colon r1 s e r2] l n2 show ?thesis
        by simp
    next
      assume "suppress_edge_lengths self \<and> node2 = node"
      then have s: "\<not> \<not> suppress_edge_lengths self" and n2: "node2 = node"
        by simp_all
      from "1.IH"(2) [OF refl refl colon r1 s r2] l n2 show ?thesis
        by simp
    qed
    with require_next_token_budget [OF r1] require_next_token_budget [OF r2]
    show ?thesis by simp
  next
    case stop
    with "1.prems" have "nexus_tokenizer sta = ?tk"
      by (subst (asm) label_loop.simps) (auto simp: Let_def split: if_splits)
    with stop show ?thesis by auto
  next
    case semi
    with "1.prems" have "nexus_tokenizer sta = next_token ?tk"
      by (subst (asm) label_loop.simps) (auto simp: Let_def split: if_splits)
    with semi next_token_budget [of ?tk] show ?thesis by simp
  next
    case paren
    with "1.prems" show ?thesis
      by (subst (asm) label_loop.simps) (simp add: Let_def)
  next
    case other
    with "1.prems" obtain ns node1 tk1 where
      lp: "\<not> lp" and
      p: "parse_label self m i ?tk (taxon_namespace st) node = Inr (ns, node1)" and
      r: "require_next_token ?tk = Inr tk1" and
      l: "label_loop self pcm m i (st\<lparr>nexus_tokenizer := tk1, taxon_namespace := ns\<rparr>)
            node1 ?cs True = Inr (sta, n)"
      by (subst (asm) label_loop.simps)
         (auto simp: Let_def split: sum.splits if_splits prod.splits)
    from "1.IH"(3) [OF refl refl other(1,2,3,4,5) lp p refl r] l
    have "budget (nexus_tokenizer sta) \<le> budget tk1"
      by simp
    with require_next_token_budget [OF r] show ?thesis by simp
  qed
qed


lemma require_next_token_budget2:
  "current_token tk \<noteq> None \<Longrightarrow> require_next_token tk = Inr tk' \<Longrightarrow>
     Suc (budget tk') < budget tk"
  using skip_comments_length [of "pending tk"]
  by (auto simp: require_next_token_def budget_def split: list.splits item.splits)

lemma descent_total:
  "budget (nexus_tokenizer st) < f \<Longrightarrow>
     \<exists>r. parse_tree_node_description f self pcm m st node i = Some r
       \<and> (case r of
            Inl e \<Rightarrow> True
          | Inr (sta, n) \<Rightarrow>
              budget (nexus_tokenizer sta) \<le> budget (nexus_tokenizer st)
              \<and> (current_token (nexus_tokenizer st) \<noteq> Some '')''
                   \<and> current_token (nexus_tokenizer st) \<noteq> Some '',''
                 \<longrightarrow> budget (nexus_tokenizer sta) < budget (nexus_tokenizer st)))"
  "Suc (budget (nexus_tokenizer st)) < f \<Longrightarrow>
     \<exists>r. parse_child_nodes f self pcm m st node c = Some r
       \<and> (case r of
            Inl e \<Rightarrow> True
          | Inr (sta, n) \<Rightarrow> budget (nexus_tokenizer sta) \<le> budget (nexus_tokenizer st))"
proof (induction f arbitrary: st node i c)
  case 0
  {
    case 1 then show ?case by simp
  next
    case 2 then show ?case by simp
  }
next
  case (Suc f)
  {
    case 1
    let ?tk = "snd (pull_captured_comments (nexus_tokenizer st))"
    let ?cs = "fst (pull_captured_comments (nexus_tokenizer st))"
    show ?case
    proof (cases "current_token ?tk = Some ''(''")
      case False
      let ?r = "label_loop self pcm m
                  (if i = None then (if child_nodes node \<noteq> [] then Some True else None)
                   else i)
                  (st\<lparr>nexus_tokenizer := ?tk, tree_statement_complete := Some False\<rparr>)
                  node ?cs False"
      from False have e: "parse_tree_node_description (Suc f) self pcm m st node i = Some ?r"
        by (simp add: parse_tree_node_description.simps Let_def)
      show ?thesis
      proof (cases ?r)
        case (Inl a)
        with e show ?thesis by simp
      next
        case (Inr p)
        obtain sta n where p: "p = (sta, n)" by (cases p)
        from label_loop_budget [OF Inr [unfolded p]] e Inr p show ?thesis
          by simp
      qed
    next
      case True
      show ?thesis
      proof (cases "require_next_token ?tk")
        case (Inl a)
        with True show ?thesis
          by (simp add: parse_tree_node_description.simps Let_def)
      next
        case (Inr tk1)
        from True have "current_token ?tk \<noteq> None" by simp
        from require_next_token_budget2 [OF this Inr] "1.prems"
        have b1: "Suc (budget tk1) < f" "budget tk1 < budget (nexus_tokenizer st)"
          by simp_all
        from Suc.IH(2) [of "st\<lparr>nexus_tokenizer := tk1\<rparr>" node False] b1(1)
        obtain r1 where
          c: "parse_child_nodes f self pcm m (st\<lparr>nexus_tokenizer := tk1\<rparr>) node False
                = Some r1" and
          cb: "case r1 of Inl e \<Rightarrow> True
               | Inr (sta, n) \<Rightarrow> budget (nexus_tokenizer sta) \<le> budget tk1"
          by (auto cong: sum.case_cong prod.case_cong)
        show ?thesis
        proof (cases r1)
          case (Inl a)
          with True Inr c show ?thesis
            by (simp add: parse_tree_node_description.simps Let_def)
        next
          case r1: (Inr p)
          obtain st1 node1 where p: "p = (st1, node1)" by (cases p)
          let ?r = "label_loop self pcm m
                  (if i = None then (if child_nodes node1 \<noteq> [] then Some True else None)
                   else i)
                  (st1\<lparr>tree_statement_complete := Some False\<rparr>) node1 ?cs False"
          from True Inr c r1 p
          have e: "parse_tree_node_description (Suc f) self pcm m st node i = Some ?r"
            by (simp add: parse_tree_node_description.simps Let_def)
          from cb r1 p have b2: "budget (nexus_tokenizer st1) \<le> budget tk1" by simp
          show ?thesis
          proof (cases ?r)
            case (Inl a)
            with e show ?thesis by simp
          next
            case (Inr p')
            obtain sta n where p': "p' = (sta, n)" by (cases p')
            from label_loop_budget [OF Inr [unfolded p']] b2 b1(2) e Inr p' show ?thesis
              by simp
          qed
        qed
      qed
    qed
  next
    case 2
    let ?tk = "nexus_tokenizer st"
    from "2.prems" have bf: "budget ?tk < f" by simp
    consider (comma) "current_token ?tk = Some '',''"
      | (close) "current_token ?tk = Some '')''"
      | (child) "current_token ?tk \<noteq> Some '',''" "current_token ?tk \<noteq> Some '')''"
      by blast
    then show ?case
    proof cases
      case comma
      let ?b = "if \<not> c then blank_child self pcm ?tk node else (?tk, node)"
      have fb: "budget (fst ?b) = budget ?tk" "current_token (fst ?b) \<noteq> None"
        using comma by simp_all
      show ?thesis
      proof (cases "require_next_token (fst ?b)")
        case (Inl a)
        with comma show ?thesis
          by (simp add: parse_child_nodes.simps Let_def)
      next
        case (Inr tk1)
        from require_next_token_budget2 [OF fb(2) Inr] fb(1)
        have b1: "Suc (budget tk1) < budget ?tk" by simp
        show ?thesis
        proof (cases "blank_run self pcm tk1 (snd ?b)")
          case (Inl a)
          with comma Inr show ?thesis
            by (simp add: parse_child_nodes.simps Let_def)
        next
          case br: (Inr p)
          obtain tk2 node2 where p: "p = (tk2, node2)" by (cases p)
          from blank_run_budget [OF br [unfolded p]] have b2: "budget tk2 \<le> budget tk1" .
          let ?st3 = "if \<not> c \<and> current_token tk2 = Some '')''
                      then st\<lparr>nexus_tokenizer := fst (blank_child self pcm tk2 node2)\<rparr>
                      else st\<lparr>nexus_tokenizer := tk2\<rparr>"
          let ?node3 = "if \<not> c \<and> current_token tk2 = Some '')''
                        then snd (blank_child self pcm tk2 node2) else node2"
          let ?c3 = "if \<not> c \<and> current_token tk2 = Some '')'' then True else c"
          from comma Inr br p
          have e: "parse_child_nodes (Suc f) self pcm m st node c
                     = parse_child_nodes f self pcm m ?st3 ?node3 ?c3"
            by (simp add: parse_child_nodes.simps Let_def)
          have b3: "budget (nexus_tokenizer ?st3) = budget tk2" by simp
          with b1 b2 bf have "Suc (budget (nexus_tokenizer ?st3)) < f" by simp
          from Suc.IH(2) [OF this, of ?node3 ?c3] e b3 b2 b1 show ?thesis
            by (auto split: sum.splits)
        qed
      qed
    next
      case close
      show ?thesis
      proof (cases "require_next_token ?tk")
        case (Inl a)
        with close show ?thesis
          by (simp add: parse_child_nodes.simps Let_def)
      next
        case (Inr tk1)
        with close require_next_token_budget [OF Inr] show ?thesis
          by (simp add: parse_child_nodes.simps Let_def)
      qed
    next
      case child
      let ?st1 = "st\<lparr>nexus_tokenizer := snd (pull_captured_comments ?tk)\<rparr>"
      let ?new = "process_node_comments self pcm node_factory
                    (fst (pull_captured_comments ?tk))"
      from bf have "budget (nexus_tokenizer ?st1) < f" by simp
      from Suc.IH(1) [OF this, of ?new "Some (current_token ?tk = Some ''('')"] child
      obtain r1 where
        d: "parse_tree_node_description f self pcm m ?st1 ?new
              (Some (current_token ?tk = Some ''('')) = Some r1" and
        db0: "case r1 of Inl e \<Rightarrow> True
             | Inr (sta, n) \<Rightarrow> budget (nexus_tokenizer sta) \<le> budget ?tk
                 \<and> budget (nexus_tokenizer sta) < budget ?tk"
        by (auto cong: sum.case_cong prod.case_cong)
      from db0 have
        db: "case r1 of Inl e \<Rightarrow> True
             | Inr (sta, n) \<Rightarrow> budget (nexus_tokenizer sta) < budget ?tk"
        by (auto split: sum.splits)
      show ?thesis
      proof (cases r1)
        case (Inl a)
        with child d show ?thesis
          by (simp add: parse_child_nodes.simps Let_def)
      next
        case (Inr p)
        obtain st2 new_node where p: "p = (st2, new_node)" by (cases p)
        from child d Inr p
        have e: "parse_child_nodes (Suc f) self pcm m st node c
                   = parse_child_nodes f self pcm m st2 (add_child node new_node) True"
          by (simp add: parse_child_nodes.simps Let_def)
        from db Inr p have b2: "budget (nexus_tokenizer st2) < budget ?tk" by simp
        with bf have "Suc (budget (nexus_tokenizer st2)) < f" by simp
        from Suc.IH(2) [OF this, of "add_child node new_node" True] e b2 show ?thesis
          by (auto split: sum.splits)
      qed
    qed
  }
qed

lemma parse_tree_statement_total:
  "\<exists>r. parse_tree_statement self pcm m st = Some r"
proof (cases "statement_start (snd (pull_captured_comments (nexus_tokenizer st)))
                (fst (pull_captured_comments (nexus_tokenizer st)))")
  case (Inl a)
  then show ?thesis by (simp add: parse_tree_statement_def)
next
  case (Inr p)
  obtain tk cs where p: "p = (tk, cs)" by (cases p)
  show ?thesis
  proof (cases "is_eof tk \<or> current_token tk \<noteq> Some ''(''")
    case True
    with Inr p show ?thesis by (auto simp: parse_tree_statement_def)
  next
    case False
    show ?thesis
    proof (cases "process_tree_comments self pcm tree_factory cs")
      case (Inl a)
      with Inr p False show ?thesis by (simp add: parse_tree_statement_def)
    next
      case t: (Inr tree)
      let ?st = "st\<lparr>nexus_tokenizer := tk, tree_statement_complete := Some False\<rparr>"
      from False have "budget (nexus_tokenizer ?st) < 2 * length (pending tk) + 3"
        by (simp add: budget_def)
      from descent_total(1) [OF this, of self pcm m "seed_node tree" None]
      obtain r where
        "parse_tree_node_description (2 * length (pending tk) + 3) self pcm m ?st
           (seed_node tree) None = Some r"
        by blast
      with Inr p False t show ?thesis
        by (cases r) (auto simp: parse_tree_statement_def)
    qed
  qed
qed

lemma next_tree_total: "\<exists>y g'. next_tree self pcm m g = Some (y, g')"
proof (cases g)
  case (Running st)
  with parse_tree_statement_total [of self pcm m st] show ?thesis
    by (auto split: sum.splits)
next
  case (Suspended st t)
  with parse_tree_statement_total [of self pcm m st] show ?thesis
    by (auto split: sum.splits)
next
  case Finished
  then show ?thesis by simp
qed

lemma requests_total: "\<exists>ys. requests n self pcm m g = Some ys \<and> length ys = n"
proof (induction n arbitrary: g)
  case 0
  show ?case by simp
next
  case (Suc n)
  from next_tree_total [of self pcm m g] obtain y g' where
    "next_tree self pcm m g = Some (y, g')" by blast
  with Suc [of g'] show ?case by auto
qed

subsection \<open>Rootedness of a tree\<close>

lemma tree_comments_loop_rooted:
  "tree_comments_loop self pcm tree rfound wfound cs = Inr (tree', rfound', wfound') \<Longrightarrow>
     (if filter is_rooting_comment cs = []
      then rfound' = rfound \<and> is_rooted tree' = is_rooted tree
      else rfound' \<and>
           parse_tree_rooting_state self (last (filter is_rooting_comment cs))
             = Inr (is_rooted tree'))"
proof (induction cs arbitrary: tree rfound wfound)
  case Nil
  then show ?case by simp
next
  case (Cons c cs)
  show ?case
  proof (cases "is_rooting_comment c")
    case True
    with Cons.prems obtain r where
      r: "parse_tree_rooting_state self c = Inr r" and
      l: "tree_comments_loop self pcm (tree\<lparr>is_rooted := r\<rparr>) True wfound cs
            = Inr (tree', rfound', wfound')"
      by (auto split: sum.splits)
    from Cons.IH [OF l] True r show ?thesis
      by (auto split: if_splits)
  next
    case False
    with Cons.prems obtain t w where
      l: "tree_comments_loop self pcm t rfound w cs = Inr (tree', rfound', wfound')" and
      t: "is_rooted t = is_rooted tree"
      by (auto simp: try_tree_weight_def split: sum.splits if_splits)
    from Cons.IH [OF l] False t show ?thesis
      by (auto split: if_splits)
  qed
qed

lemma process_tree_comments_rooted:
  assumes "process_tree_comments self pcm tree cs = Inr tree'"
  shows "parse_tree_rooting_state self
           (case filter is_rooting_comment cs of [] \<Rightarrow> [] | d # ds \<Rightarrow> last (d # ds))
         = Inr (is_rooted tree')"
proof -
  from assms obtain t1 rf wf1 where
    l: "tree_comments_loop self pcm tree False False cs = Inr (t1, rf, wf1)"
    by (auto simp: process_tree_comments_def split: sum.splits)
  show ?thesis
  proof (cases "filter is_rooting_comment cs")
    case Nil
    with tree_comments_loop_rooted [OF l] have "\<not> rf" by simp
    with assms l Nil show ?thesis
      by (auto simp: process_tree_comments_def split: sum.splits if_splits)
  next
    case (Cons d ds)
    with tree_comments_loop_rooted [OF l] have
      "rf" "parse_tree_rooting_state self (last (d # ds)) = Inr (is_rooted t1)"
      by auto
    with assms l Cons show ?thesis
      by (auto simp: process_tree_comments_def split: sum.splits if_splits)
  qed
qed

lemma ex_two_directives:
  "process_tree_comments reader0 no_metadata tree_factory [''&R'', ''&U'']
     = Inr (tree_factory\<lparr>is_rooted := Some False\<rparr>)"
  by (simp add: process_tree_comments_def is_rooting_comment_def parse_tree_rooting_state_def
        reader0_def tree_factory_def)

text \<open>
  Claim C3, as the code has it: the loop over the comment batch assigns the rootedness at
  every rooting directive it meets, so the last directive of the batch decides (under a
  forcing policy the policy decides whatever the directive says), and the policy alone is
  consulted, with an empty directive, exactly when the batch holds no rooting directive.
\<close>

theorem last_rooting_directive_decides:
  assumes "process_tree_comments self pcm tree cs = Inr tree'"
  shows "Inr (is_rooted tree') =
           parse_tree_rooting_state self
             (case filter is_rooting_comment cs of [] \<Rightarrow> [] | d # ds \<Rightarrow> last (d # ds))"
  using process_tree_comments_rooted [OF assms] by simp

theorem last_rooting_directive_decides_witness:
  "process_tree_comments reader0 no_metadata tree_factory [''&R'', ''&U'']
     = Inr (tree_factory\<lparr>is_rooted := Some False\<rparr>)
   \<and> Inr (is_rooted (tree_factory\<lparr>is_rooted := Some False\<rparr> :: nat tree))
       = parse_tree_rooting_state reader0 ''&U''"
  using last_rooting_directive_decides [OF ex_two_directives] ex_two_directives
  by (simp add: is_rooting_comment_def)

text \<open>
  The batch \<^verbatim>\<open>[&R][&U]\<close> under the default policy: the tree is unrooted, although its
  first directive alone makes a tree rooted.
\<close>

theorem first_rooting_directive_counterexample:
  "map_sum id is_rooted
     (process_tree_comments reader0 no_metadata tree_factory [''&R'', ''&U''])
   \<noteq> parse_tree_rooting_state reader0 ''&R''"
  using ex_two_directives by (simp add: parse_tree_rooting_state_def reader0_def)

lemma parse_tree_statement_tree:
  assumes "parse_tree_statement self pcm m st = Some (Inr (st', Some t))"
  shows "\<exists>tk cs tree.
           statement_start (snd (pull_captured_comments (nexus_tokenizer st)))
             (fst (pull_captured_comments (nexus_tokenizer st))) = Inr (tk, cs)
           \<and> process_tree_comments self pcm tree_factory cs = Inr tree
           \<and> is_rooted t = is_rooted tree
           \<and> tree_statement_complete st' = Some True"
  using assms
  by (auto simp: parse_tree_statement_def split: option.splits sum.splits if_splits)

lemma rooting_state_of_directive:
  assumes "is_rooting_comment d"
  shows "parse_tree_rooting_state self d
         = Inr (Some (if rooting self = Some ''force-unrooted'' then False
                      else if rooting self = Some ''force-rooted'' then True
                      else d \<in> {''&R'', ''&r''}))"
  using assms by (auto simp: parse_tree_rooting_state_def is_rooting_comment_def)

text \<open>
  Claim C7, as the code has it, for every tree statement that \<^verbatim>\<open>_parse_tree_statement\<close>
  reads, at any place of the stream, whose comment batch in front of the opening
  parenthesis holds a rooting directive. Under \<^verbatim>\<open>force-unrooted\<close> the tree is unrooted and
  under \<^verbatim>\<open>force-rooted\<close> it is rooted, whatever the directive; under every other policy
  the tree is rooted when the last rooting directive of the batch is \<^verbatim>\<open>&R\<close> or \<^verbatim>\<open>&r\<close>,
  and unrooted when it is \<^verbatim>\<open>&U\<close> or \<^verbatim>\<open>&u\<close>.
\<close>

theorem rooting_directive_and_policy:
  assumes "statement_start (snd (pull_captured_comments (nexus_tokenizer st)))
             (fst (pull_captured_comments (nexus_tokenizer st))) = Inr (tk, cs)"
      and "filter is_rooting_comment cs \<noteq> []"
      and "parse_tree_statement self pcm m st = Some (Inr (st', Some t))"
  shows "is_rooted t
         = Some (if rooting self = Some ''force-unrooted'' then False
                 else if rooting self = Some ''force-rooted'' then True
                 else last (filter is_rooting_comment cs) \<in> {''&R'', ''&r''})"
proof -
  from parse_tree_statement_tree [OF assms(3)] assms(1) obtain tree where
    p: "process_tree_comments self pcm tree_factory cs = Inr tree" and
    e: "is_rooted t = is_rooted tree"
    by auto
  let ?d = "last (filter is_rooting_comment cs)"
  from assms(2) have "?d \<in> set (filter is_rooting_comment cs)"
    by (rule last_in_set)
  then have d: "is_rooting_comment ?d" by simp
  from process_tree_comments_rooted [OF p] assms(2)
  have "parse_tree_rooting_state self ?d = Inr (is_rooted tree)"
    by (cases "filter is_rooting_comment cs") simp_all
  with rooting_state_of_directive [OF d, of self] e show ?thesis
    by simp
qed

theorem rooting_directive_and_policy_witness:
  "parse_tree_statement (reader0\<lparr>rooting := Some ''force-rooted''\<rparr>) no_metadata
     require_taxon_for_symbol
     \<lparr>nexus_tokenizer =
        NexusTokenizer (Comment ''&U'' # tokens [''('', ''A'', '','', ''B'', '')'', '';'']),
      taxon_namespace = [], tree_statement_complete = None\<rparr>
   = Some (Inr (end_state [''A'', ''B''],
                Some (example_tree (Some True) [leaf ''A'', leaf ''B''])))
   \<and> is_rooted (example_tree (Some True) [leaf ''A'', leaf ''B'']) = Some True
   \<and> parse_tree_statement reader0 no_metadata require_taxon_for_symbol
       \<lparr>nexus_tokenizer =
          NexusTokenizer (Comment ''&R'' # tokens [''('', ''A'', '','', ''B'', '')'', '';'']),
        taxon_namespace = [], tree_statement_complete = None\<rparr>
     = Some (Inr (end_state [''A'', ''B''],
                  Some (example_tree (Some True) [leaf ''A'', leaf ''B''])))"
proof -
  let ?st = "\<lparr>nexus_tokenizer =
                NexusTokenizer (Comment ''&U'' # tokens [''('', ''A'', '','', ''B'', '')'', '';'']),
              taxon_namespace = [], tree_statement_complete = None\<rparr>"
  let ?tk = "\<lparr>current_token = Some ''('', is_token_quoted = False, captured_comments = [],
              pending = tokens [''A'', '','', ''B'', '')'', '';'']\<rparr>"
  let ?sr = "\<lparr>nexus_tokenizer =
                NexusTokenizer (Comment ''&R'' # tokens [''('', ''A'', '','', ''B'', '')'', '';'']),
              taxon_namespace = [], tree_statement_complete = None\<rparr>"
  have g1: "statement_start (snd (pull_captured_comments (nexus_tokenizer ?sr)))
              (fst (pull_captured_comments (nexus_tokenizer ?sr))) = Inr (?tk, [''&R''])"
    by code_simp
  have g2: "filter is_rooting_comment [''&R''] \<noteq> []"
    by (simp add: is_rooting_comment_def)
  have g3: "parse_tree_statement reader0 no_metadata require_taxon_for_symbol ?sr
            = Some (Inr (end_state [''A'', ''B''],
                         Some (example_tree (Some True) [leaf ''A'', leaf ''B''])))"
    by code_simp
  have h1: "statement_start (snd (pull_captured_comments (nexus_tokenizer ?st)))
              (fst (pull_captured_comments (nexus_tokenizer ?st))) = Inr (?tk, [''&U''])"
    by code_simp
  have h2: "filter is_rooting_comment [''&U''] \<noteq> []"
    by (simp add: is_rooting_comment_def)
  have h3: "parse_tree_statement (reader0\<lparr>rooting := Some ''force-rooted''\<rparr>) no_metadata
              require_taxon_for_symbol ?st
            = Some (Inr (end_state [''A'', ''B''],
                         Some (example_tree (Some True) [leaf ''A'', leaf ''B''])))"
    by code_simp
  from rooting_directive_and_policy [OF h1 h2 h3] rooting_directive_and_policy [OF g1 g2 g3]
       h3 g3
  show ?thesis
    by (simp add: reader0_def)
qed

text \<open>
  \<^verbatim>\<open>[&R](A,B);\<close> read with \<^verbatim>\<open>rooting="force-unrooted"\<close>: the tree is unrooted.
\<close>

theorem rooted_directive_under_force_unrooted_counterexample:
  "requests 1 (reader0\<lparr>rooting := Some ''force-unrooted''\<rparr>) no_metadata
     require_taxon_for_symbol
     (tree_iter (Comment ''&R'' # tokens [''('', ''A'', '','', ''B'', '')'', '';'']) [])
   = Some [Yield (Some (example_tree (Some False) [leaf ''A'', leaf ''B'']))]"
  by code_simp

subsection \<open>The rooting configuration\<close>

text \<open>
  Claim C9, as the code has it: the setter accepts the four strings \<^verbatim>\<open>force-unrooted\<close>,
  \<^verbatim>\<open>force-rooted\<close>, \<^verbatim>\<open>default-unrooted\<close>, \<^verbatim>\<open>default-rooted\<close> and the value \<^verbatim>\<open>None\<close>,
  and raises \<^verbatim>\<open>ValueError\<close> on every other value; a reader constructed without keyword
  arguments has \<^verbatim>\<open>default-unrooted\<close>; with \<^verbatim>\<open>None\<close> and no directive the rootedness of a
  tree stays \<^verbatim>\<open>None\<close>.
\<close>

theorem rooting_values:
  "set_rooting self val =
     (if val \<in> {Some ''force-unrooted'', Some ''force-rooted'', Some ''default-unrooted'',
                 Some ''default-rooted'', None}
      then Inr (self\<lparr>rooting := val\<rparr>) else Inl ValueError)
   \<and> map_sum id rooting (init float no_kwargs) = Inr (Some ''default-unrooted'')
   \<and> parse_tree_rooting_state (self\<lparr>rooting := None\<rparr>) [] = Inr None"
  by (simp add: set_rooting_def init_def legacy_rooting_def no_kwargs_def pop_def
        parse_tree_rooting_state_def)

text \<open>The string \<^verbatim>\<open>unknown\<close> is not among the accepted values.\<close>

theorem rooting_unknown_counterexample:
  "set_rooting reader0 (Some ''unknown'') = Inl ValueError"
  by (simp add: set_rooting_def)

subsection \<open>Weight comments of a tree\<close>

lemma rooting_not_weight: "is_rooting_comment c \<Longrightarrow> \<not> is_weight_comment c"
  by (auto simp: is_rooting_comment_def is_weight_comment_def startswith_def)

lemma parse_tree_rooting_state_total:
  assumes "rooting self \<in> {Some ''force-unrooted'', Some ''force-rooted'',
             Some ''default-unrooted'', Some ''default-rooted'', None}"
  shows "\<exists>r. parse_tree_rooting_state self c = Inr r"
  using assms by (auto simp: parse_tree_rooting_state_def)

lemma tree_comments_loop_untracked:
  assumes "\<not> store_tree_weights self"
      and "rooting self \<in> {Some ''force-unrooted'', Some ''force-rooted'',
             Some ''default-unrooted'', Some ''default-rooted'', None}"
  shows "\<exists>t rf wf'. tree_comments_loop self pcm tree rfound wfound cs = Inr (t, rf, wf')
           \<and> weight t = weight tree
           \<and> filter is_weight_comment (tree_comments t)
               = filter is_weight_comment (tree_comments tree) @ filter is_weight_comment cs"
proof (induction cs arbitrary: tree rfound wfound)
  case Nil
  show ?case by simp
next
  case (Cons c cs)
  show ?case
  proof (cases "is_rooting_comment c")
    case True
    from parse_tree_rooting_state_total [OF assms(2)] obtain r where
      r: "parse_tree_rooting_state self c = Inr r" by blast
    from Cons.IH [of "tree\<lparr>is_rooted := r\<rparr>" True wfound] True r rooting_not_weight [OF True]
    show ?thesis by simp
  next
    case False
    note nr = this
    show ?thesis
    proof (cases "is_weight_comment c")
      case True
      from Cons.IH [of "tree\<lparr>tree_comments := tree_comments tree @ [c]\<rparr>" rfound True]
        nr True assms(1)
      show ?thesis by simp
    next
      case False
      from Cons.IH [of "tree\<lparr>tree_comments := tree_comments tree @ [c]\<rparr>" rfound wfound]
        Cons.IH [of "tree\<lparr>tree_annotations := tree_annotations tree \<union> pcm c\<rparr>" rfound wfound]
        nr False
      show ?thesis by simp
    qed
  qed
qed

lemma process_tree_comments_untracked:
  assumes "\<not> store_tree_weights self"
      and "rooting self \<in> {Some ''force-unrooted'', Some ''force-rooted'',
             Some ''default-unrooted'', Some ''default-rooted'', None}"
  shows "\<exists>t. process_tree_comments self pcm tree cs = Inr t
           \<and> weight t = weight tree
           \<and> filter is_weight_comment (tree_comments t)
               = filter is_weight_comment (tree_comments tree) @ filter is_weight_comment cs"
proof -
  from tree_comments_loop_untracked [OF assms, of pcm tree False False cs]
  obtain t rf wf' where
    l: "tree_comments_loop self pcm tree False False cs = Inr (t, rf, wf')" and
    w: "weight t = weight tree" and
    f: "filter is_weight_comment (tree_comments t)
          = filter is_weight_comment (tree_comments tree) @ filter is_weight_comment cs"
    by blast
  from parse_tree_rooting_state_total [OF assms(2)] obtain r where
    r: "parse_tree_rooting_state self [] = Inr r" by blast
  show ?thesis
    using l w f r assms(1) by (simp add: process_tree_comments_def)
qed

text \<open>
  Claim C1 at two statements preceded by a weight comment with a malformed payload,
  \<^verbatim>\<open>[&W]\<close> and \<^verbatim>\<open>[&W 1/x]\<close>, read with \<^verbatim>\<open>store_tree_weights=True\<close>: the parse raises
  \<^verbatim>\<open>NameError\<close>. The body of the \<^verbatim>\<open>try\<close> reads the unbound name \<^verbatim>\<open>stream_tokenizer\<close>
  before it looks at the payload, and the handlers catch \<^verbatim>\<open>IndexError\<close> and
  \<^verbatim>\<open>ValueError\<close> only.
\<close>

theorem weight_comment_raises_name_error:
  "requests 1 (reader0\<lparr>store_tree_weights := True\<rparr>) no_metadata require_taxon_for_symbol
     (tree_iter (Comment ''&W'' # tokens [''('', ''A'', '')'', '';'']) [])
   = Some [Raise NameError]
   \<and> requests 1 (reader0\<lparr>store_tree_weights := True\<rparr>) no_metadata require_taxon_for_symbol
       (tree_iter (Comment ''&W 1/x'' # tokens [''('', ''A'', '')'', '';'']) [])
     = Some [Raise NameError]"
  by code_simp

subsection \<open>Labels and taxa\<close>






subsection \<open>The sequence of trees\<close>

text \<open>
  Claim C6 at the stream \<^verbatim>\<open>(A,B);\<close>: the first request yields the tree, the second
  request yields \<^verbatim>\<open>None\<close>, and only the third finds the generator ended. The source
  yields the result of \<^verbatim>\<open>_parse_tree_statement\<close> before it tests it for \<^verbatim>\<open>None\<close>.
\<close>

theorem tree_iter_yields_none_at_end:
  "requests 3 reader0 no_metadata require_taxon_for_symbol
     (tree_iter (tokens [''('', ''A'', '','', ''B'', '')'', '';'']) [])
   = Some [Yield (Some (example_tree (Some False) [leaf ''A'', leaf ''B''])),
           Yield None, StopIteration]"
  by code_simp

subsection \<open>Separators and blank children\<close>

lemma reader0_fields:
  "rooting reader0 = Some ''default-unrooted''"
  "suppress_edge_lengths reader0 = False"
  "extract_comment_metadata reader0 = False"
  "store_tree_weights reader0 = False"
  "finish_node_func reader0 = None"
  "preserve_underscores reader0 = False"
  "suppress_internal_node_taxa reader0 = True"
  "suppress_external_node_taxa reader0 = False"
  "edge_len_type reader0 = decimal"
  by (simp_all add: reader0_def)





lemma tokens_separators:
  "tokens (xs @ replicate k '','' @ ys) = tokens xs @ replicate k (Token '','' False) @ tokens ys"
  "tokens (x # zs) = Token x False # tokens zs"
  "tokens [] = []"
  by (simp_all add: tokens_def)


lemma process_no_comments:
  "process_tree_comments reader0 pcm tree_factory []
     = Inr (tree_factory\<lparr>is_rooted := Some False\<rparr>)"
  by (simp add: process_tree_comments_def parse_tree_rooting_state_def reader0_fields)













subsection \<open>Statements that do not end with a semicolon\<close>

lemma label_loop_stops:
  "label_loop self pcm m i st node cs lp = Inr (sta, n) \<Longrightarrow>
     tree_statement_complete sta = Some True
     \<or> current_token (nexus_tokenizer sta) = Some '')''
     \<or> current_token (nexus_tokenizer sta) = Some '',''"
proof (induction self pcm m i st node cs lp rule: label_loop.induct)
  case (1 self pcm m i st node cs lp)
  from "1.prems" show ?case
    apply (subst (asm) label_loop.simps)
    apply (simp add: Let_def split: if_splits sum.splits prod.splits)
    using "1.IH" apply (auto simp: Let_def)
    done
qed

lemma description_stops:
  assumes "parse_tree_node_description f self pcm m st node i = Some (Inr (sta, n))"
  shows "tree_statement_complete sta = Some True
     \<or> current_token (nexus_tokenizer sta) = Some '')''
     \<or> current_token (nexus_tokenizer sta) = Some '',''"
proof (cases f)
  case 0
  with assms show ?thesis by (simp add: parse_tree_node_description.simps)
next
  case (Suc f')
  with assms obtain i' st' node' cs' where
    "label_loop self pcm m i' st' node' cs' False = Inr (sta, n)"
    by (auto simp: parse_tree_node_description.simps Let_def
             split: if_splits sum.splits option.splits)
  then show ?thesis by (rule label_loop_stops)
qed

text \<open>
  Claim C4, as the code has it: whenever the description of the seed node returns and the
  flag \<^verbatim>\<open>tree_statement_complete\<close> is not set, \<^verbatim>\<open>_parse_tree_statement\<close> raises
  \<^verbatim>\<open>NewickReaderIncompleteTreeStatementError\<close>, so that the generator raises it and
  yields no tree; the description of the seed node has then stopped at a closing
  parenthesis or at a separator. Reading \<^verbatim>\<open>(A,B))\<close> is an example.
\<close>

theorem incomplete_tree_statement:
  assumes "statement_start (snd (pull_captured_comments (nexus_tokenizer st)))
             (fst (pull_captured_comments (nexus_tokenizer st))) = Inr (tk, cs)"
      and "\<not> is_eof tk"
      and "current_token tk = Some ''(''"
      and "process_tree_comments self pcm tree_factory cs = Inr tree"
      and "parse_tree_node_description (2 * length (pending tk) + 3) self pcm m
             (st\<lparr>nexus_tokenizer := tk, tree_statement_complete := Some False\<rparr>)
             (seed_node tree) None = Some (Inr (sta, seed))"
      and "tree_statement_complete sta \<noteq> Some True"
  shows "parse_tree_statement self pcm m st
           = Some (Inl NewickReaderIncompleteTreeStatementError)
       \<and> next_tree self pcm m (Running st)
           = Some (Raise NewickReaderIncompleteTreeStatementError, Finished)
       \<and> (current_token (nexus_tokenizer sta) = Some '')''
          \<or> current_token (nexus_tokenizer sta) = Some '','')
       \<and> requests 1 reader0 no_metadata require_taxon_for_symbol
           (tree_iter (tokens [''('', ''A'', '','', ''B'', '')'', '')'']) [])
         = Some [Raise NewickReaderIncompleteTreeStatementError]"
proof -
  have p: "parse_tree_statement self pcm m st
             = Some (Inl NewickReaderIncompleteTreeStatementError)"
    using assms by (simp add: parse_tree_statement_def)
  have x: "requests 1 reader0 no_metadata require_taxon_for_symbol
           (tree_iter (tokens [''('', ''A'', '','', ''B'', '')'', '')'']) [])
         = Some [Raise NewickReaderIncompleteTreeStatementError]"
    by code_simp
  from description_stops [OF assms(5)] assms(6) p x show ?thesis
    by simp
qed

theorem incomplete_tree_statement_witness:
  "parse_tree_statement reader0 no_metadata require_taxon_for_symbol
     \<lparr>nexus_tokenizer = NexusTokenizer (tokens [''('', ''A'', '','', ''B'', '')'', '')'']),
      taxon_namespace = [], tree_statement_complete = None\<rparr>
   = Some (Inl NewickReaderIncompleteTreeStatementError)"
proof -
  let ?st = "\<lparr>nexus_tokenizer = NexusTokenizer (tokens [''('', ''A'', '','', ''B'', '')'', '')'']),
              taxon_namespace = [], tree_statement_complete = None\<rparr>"
  let ?tk = "\<lparr>current_token = Some ''('', is_token_quoted = False, captured_comments = [],
              pending = tokens [''A'', '','', ''B'', '')'', '')'']\<rparr>"
  let ?sta = "\<lparr>nexus_tokenizer =
                 \<lparr>current_token = Some '')'', is_token_quoted = False,
                  captured_comments = [], pending = []\<rparr>,
               taxon_namespace = [Taxon (Some ''A''), Taxon (Some ''B'')],
               tree_statement_complete = Some False\<rparr>"
  have h1: "statement_start (snd (pull_captured_comments (nexus_tokenizer ?st)))
              (fst (pull_captured_comments (nexus_tokenizer ?st))) = Inr (?tk, [])"
    by code_simp
  have h2: "\<not> is_eof ?tk"
    by (simp add: is_eof_def tokens_def)
  have h3: "current_token ?tk = Some ''(''"
    by simp
  have h4: "process_tree_comments reader0 no_metadata tree_factory []
              = Inr (tree_factory\<lparr>is_rooted := Some False\<rparr>)"
    by (rule process_no_comments)
  have h5: "parse_tree_node_description (2 * length (pending ?tk) + 3) reader0 no_metadata
              require_taxon_for_symbol
              (?st\<lparr>nexus_tokenizer := ?tk, tree_statement_complete := Some False\<rparr>)
              (seed_node (tree_factory\<lparr>is_rooted := Some False\<rparr>)) None
            = Some (Inr (?sta, Node None None None [] {} [leaf ''A'', leaf ''B'']))"
    by code_simp
  have h6: "tree_statement_complete ?sta \<noteq> Some True"
    by simp
  from incomplete_tree_statement [OF h1 h2 h3 h4 h5 h6] show ?thesis
    by simp
qed

text \<open>
  \<^verbatim>\<open>(A,(B,C\<close>: the stream ends after the label \<^verbatim>\<open>C\<close>, and the error raised is the
  tokenizer's, not \<^verbatim>\<open>NewickReaderIncompleteTreeStatementError\<close>.
\<close>

theorem stream_end_counterexample:
  "requests 1 reader0 no_metadata require_taxon_for_symbol
     (tree_iter (tokens [''('', ''A'', '','', ''('', ''B'', '','', ''C'']) [])
   = Some [Raise UnexpectedEndOfStreamError]"
  by code_simp

subsection \<open>Malformed statements\<close>

lemma label_loop_second_label:
  assumes "\<not> structural (current_token (nexus_tokenizer st))"
  shows "label_loop self pcm m i st node cs True = Inl NewickReaderMalformedStatementError"
  using assms
  by (subst label_loop.simps) (simp add: structural_def pull_captured_comments_def Let_def)

lemma label_loop_open_paren:
  assumes "current_token (nexus_tokenizer st) = Some ''(''"
  shows "label_loop self pcm m i st node cs lp = Inl NewickReaderMalformedStatementError"
  using assms
  by (subst label_loop.simps) (simp add: pull_captured_comments_def Let_def)

lemma label_loop_label:
  assumes "\<not> structural (current_token (nexus_tokenizer st))"
      and "parse_label self m i (clear_captured_comments (nexus_tokenizer st))
             (taxon_namespace st) node = Inr (ns, nodea)"
      and "require_next_token (clear_captured_comments (nexus_tokenizer st)) = Inr tk1"
  shows "label_loop self pcm m i st node cs False
         = label_loop self pcm m i (st\<lparr>nexus_tokenizer := tk1, taxon_namespace := ns\<rparr>) nodea
             (cs @ captured_comments (nexus_tokenizer st)) True"
  using assms
  by (subst label_loop.simps)
     (simp add: structural_def pull_captured_comments_def clear_captured_comments_def Let_def)

lemma label_loop_bad_length:
  assumes "current_token (nexus_tokenizer st) = Some '':''"
      and "\<not> suppress_edge_lengths self"
      and "require_next_token (clear_captured_comments (nexus_tokenizer st)) = Inr tk1"
      and "edge_len_type self (current_token tk1) = Inl ValueError"
  shows "label_loop self pcm m i st node cs lp = Inl NewickReaderMalformedStatementError"
  using assms
  by (subst label_loop.simps)
     (simp add: pull_captured_comments_def clear_captured_comments_def Let_def)

lemma require_next_token_current:
  "pending tk = Token t q # rest \<Longrightarrow>
     require_next_token tk
       = Inr (tk\<lparr>current_token := Some t, is_token_quoted := q, pending := rest\<rparr>)"
  by (simp add: require_next_token_def)

lemma label_loop_skipped_length:
  assumes "current_token (nexus_tokenizer st) = Some '':''"
      and "suppress_edge_lengths self"
      and "require_next_token (clear_captured_comments (nexus_tokenizer st)) = Inr tk1"
      and "require_next_token tk1 = Inr tk2"
  shows "label_loop self pcm m i st node cs lp
         = label_loop self pcm m i (st\<lparr>nexus_tokenizer := tk2\<rparr>) node
             (cs @ captured_comments (nexus_tokenizer st)) lp"
  using assms
  by (subst label_loop.simps)
     (simp add: pull_captured_comments_def clear_captured_comments_def Let_def)

lemma label_loop_skipped_token:
  assumes a: "suppress_edge_lengths self
      \<and> current_token (nexus_tokenizer st) = Some '':''
      \<and> pending (nexus_tokenizer st) = Token x q # Token y qa # resta"
  shows "label_loop self pcm m i st node cs lp
           = label_loop self pcm m i
               (st\<lparr>nexus_tokenizer :=
                     (clear_captured_comments (nexus_tokenizer st))
                       \<lparr>current_token := Some y, is_token_quoted := qa, pending := resta\<rparr>\<rparr>)
               node (cs @ captured_comments (nexus_tokenizer st)) lp"
proof -
  let ?tk = "clear_captured_comments (nexus_tokenizer st)"
  let ?tk1 = "?tk\<lparr>current_token := Some x, is_token_quoted := q,
                    pending := Token y qa # resta\<rparr>"
  let ?tk2 = "?tk1\<lparr>current_token := Some y, is_token_quoted := qa, pending := resta\<rparr>"
  from a have r1: "require_next_token ?tk = Inr ?tk1"
    by (intro require_next_token_current) (simp add: clear_captured_comments_def)
  have r2: "require_next_token ?tk1 = Inr ?tk2"
    by (intro require_next_token_current) simp
  from a have "label_loop self pcm m i st node cs lp
      = label_loop self pcm m i (st\<lparr>nexus_tokenizer := ?tk2\<rparr>) node
          (cs @ captured_comments (nexus_tokenizer st)) lp"
    by (intro label_loop_skipped_length [OF _ _ r1 r2]) simp_all
  then show ?thesis by simp
qed

text \<open>
  Claim C5, as the code has it, in the loop that reads the label and the edge length of a
  node. A label token that follows a label token accepted for the same node, and an
  opening parenthesis that follows such a label token, raise
  \<^verbatim>\<open>NewickReaderMalformedStatementError\<close>. So does a colon followed by a token on which
  the edge length type raises \<^verbatim>\<open>ValueError\<close>, when edge lengths are not suppressed.
  When edge lengths are suppressed, the token after the colon is consumed without a cast,
  whatever it is, and the loop goes on at the token that follows it, with the node as it
  was. And reading \<^verbatim>\<open>((A)B(C));\<close> raises the error.
\<close>

theorem malformed_statements:
  "(\<not> structural (Some la) \<and> \<not> structural (Some lb)
      \<and> current_token (nexus_tokenizer st) = Some la
      \<and> pending (nexus_tokenizer st) = Token lb q # rest
      \<and> parse_label self m i (clear_captured_comments (nexus_tokenizer st))
            (taxon_namespace st) node = Inr (ns, nodea)
     \<longrightarrow> label_loop self pcm m i st node cs False = Inl NewickReaderMalformedStatementError)
   \<and> (\<not> structural (Some la)
      \<and> current_token (nexus_tokenizer st') = Some la
      \<and> pending (nexus_tokenizer st') = Token ''('' q # rest
      \<and> parse_label self m i (clear_captured_comments (nexus_tokenizer st'))
            (taxon_namespace st') node = Inr (ns, nodea)
     \<longrightarrow> label_loop self pcm m i st' node cs False = Inl NewickReaderMalformedStatementError)
   \<and> (\<not> suppress_edge_lengths self
      \<and> current_token (nexus_tokenizer st'') = Some '':''
      \<and> pending (nexus_tokenizer st'') = Token x q # rest
      \<and> edge_len_type self (Some x) = Inl ValueError
     \<longrightarrow> label_loop self pcm m i st'' node cs lp = Inl NewickReaderMalformedStatementError)
   \<and> (suppress_edge_lengths self'
      \<and> current_token (nexus_tokenizer sta) = Some '':''
      \<and> pending (nexus_tokenizer sta) = Token x q # Token y qa # resta
     \<longrightarrow> label_loop self' pcm m i sta node cs lp
          = label_loop self' pcm m i
              (sta\<lparr>nexus_tokenizer :=
                     (clear_captured_comments (nexus_tokenizer sta))
                       \<lparr>current_token := Some y, is_token_quoted := qa, pending := resta\<rparr>\<rparr>)
              node (cs @ captured_comments (nexus_tokenizer sta)) lp)
   \<and> requests 1 reader0 no_metadata require_taxon_for_symbol
       (tree_iter
          (tokens [''('', ''('', ''A'', '')'', ''B'', ''('', ''C'', '')'', '')'', '';'']) [])
     = Some [Raise NewickReaderMalformedStatementError]"
proof (intro conjI impI)
  assume a: "\<not> structural (Some la) \<and> \<not> structural (Some lb)
      \<and> current_token (nexus_tokenizer st) = Some la
      \<and> pending (nexus_tokenizer st) = Token lb q # rest
      \<and> parse_label self m i (clear_captured_comments (nexus_tokenizer st))
            (taxon_namespace st) node = Inr (ns, nodea)"
  let ?tk = "clear_captured_comments (nexus_tokenizer st)"
  let ?tk1 = "?tk\<lparr>current_token := Some lb, is_token_quoted := q, pending := rest\<rparr>"
  from a have r: "require_next_token ?tk = Inr ?tk1"
    by (intro require_next_token_current) (simp add: clear_captured_comments_def)
  from a have "label_loop self pcm m i st node cs False
      = label_loop self pcm m i (st\<lparr>nexus_tokenizer := ?tk1, taxon_namespace := ns\<rparr>) nodea
          (cs @ captured_comments (nexus_tokenizer st)) True"
    by (intro label_loop_label r) simp_all
  also from a have "\<dots> = Inl NewickReaderMalformedStatementError"
    by (intro label_loop_second_label) simp
  finally show "label_loop self pcm m i st node cs False
                  = Inl NewickReaderMalformedStatementError" .
next
  assume a: "\<not> structural (Some la)
      \<and> current_token (nexus_tokenizer st') = Some la
      \<and> pending (nexus_tokenizer st') = Token ''('' q # rest
      \<and> parse_label self m i (clear_captured_comments (nexus_tokenizer st'))
            (taxon_namespace st') node = Inr (ns, nodea)"
  let ?tk = "clear_captured_comments (nexus_tokenizer st')"
  let ?tk1 = "?tk\<lparr>current_token := Some ''('', is_token_quoted := q, pending := rest\<rparr>"
  from a have r: "require_next_token ?tk = Inr ?tk1"
    by (intro require_next_token_current) (simp add: clear_captured_comments_def)
  from a have "label_loop self pcm m i st' node cs False
      = label_loop self pcm m i (st'\<lparr>nexus_tokenizer := ?tk1, taxon_namespace := ns\<rparr>) nodea
          (cs @ captured_comments (nexus_tokenizer st')) True"
    by (intro label_loop_label r) simp_all
  also have "\<dots> = Inl NewickReaderMalformedStatementError"
    by (intro label_loop_open_paren) simp
  finally show "label_loop self pcm m i st' node cs False
                  = Inl NewickReaderMalformedStatementError" .
next
  assume a: "\<not> suppress_edge_lengths self
      \<and> current_token (nexus_tokenizer st'') = Some '':''
      \<and> pending (nexus_tokenizer st'') = Token x q # rest
      \<and> edge_len_type self (Some x) = Inl ValueError"
  let ?tk = "clear_captured_comments (nexus_tokenizer st'')"
  let ?tk1 = "?tk\<lparr>current_token := Some x, is_token_quoted := q, pending := rest\<rparr>"
  from a have r: "require_next_token ?tk = Inr ?tk1"
    by (intro require_next_token_current) (simp add: clear_captured_comments_def)
  from a show "label_loop self pcm m i st'' node cs lp
                 = Inl NewickReaderMalformedStatementError"
    by (intro label_loop_bad_length [OF _ _ r]) simp_all
next
  assume "suppress_edge_lengths self'
      \<and> current_token (nexus_tokenizer sta) = Some '':''
      \<and> pending (nexus_tokenizer sta) = Token x q # Token y qa # resta"
  then show "label_loop self' pcm m i sta node cs lp
          = label_loop self' pcm m i
              (sta\<lparr>nexus_tokenizer :=
                     (clear_captured_comments (nexus_tokenizer sta))
                       \<lparr>current_token := Some y, is_token_quoted := qa, pending := resta\<rparr>\<rparr>)
              node (cs @ captured_comments (nexus_tokenizer sta)) lp"
    by (rule label_loop_skipped_token)
next
  show "requests 1 reader0 no_metadata require_taxon_for_symbol
       (tree_iter
          (tokens [''('', ''('', ''A'', '')'', ''B'', ''('', ''C'', '')'', '')'', '';'']) [])
     = Some [Raise NewickReaderMalformedStatementError]"
    by code_simp
qed

theorem malformed_statements_witness:
  "label_loop reader0 no_metadata require_taxon_for_symbol (Some False)
     (node_state ''A'' ''B'') blank [] False = Inl NewickReaderMalformedStatementError
   \<and> label_loop reader0 no_metadata require_taxon_for_symbol (Some False)
       (node_state ''A'' ''('') blank [] False = Inl NewickReaderMalformedStatementError
   \<and> label_loop reader0 no_metadata require_taxon_for_symbol (Some False)
       (node_state '':'' ''x'') blank [] False = Inl NewickReaderMalformedStatementError
   \<and> label_loop (reader0\<lparr>suppress_edge_lengths := True\<rparr>) no_metadata
       require_taxon_for_symbol (Some False) (node_state '':'' ''x'') blank [] False
     = Inr (\<lparr>nexus_tokenizer = \<lparr>current_token = Some '')'', is_token_quoted = False,
               captured_comments = [], pending = [Token '';'' False]\<rparr>,
              taxon_namespace = [], tree_statement_complete = Some False\<rparr>, blank)"
  using malformed_statements
          [where la = "''A''" and lb = "''B''" and st = "node_state ''A'' ''B''"
             and q = False and rest = "[Token '')'' False, Token '';'' False]"
             and self = reader0 and m = require_taxon_for_symbol and i = "Some False"
             and node = blank and ns = "[Taxon (Some ''A'')]" and nodea = "leaf ''A''"
             and pcm = no_metadata and cs = "[]" and st' = "node_state ''A'' ''(''"
             and st'' = "node_state '':'' ''x''" and x = "''x''" and lp = False
             and self' = "reader0\<lparr>suppress_edge_lengths := True\<rparr>"
             and sta = "node_state '':'' ''x''" and y = "'')''" and qa = False
             and resta = "[Token '';'' False]"]
  by (simp add: structural_def node_state_def parse_label_def store_label_def
        clear_captured_comments_def replace_underscores_def require_taxon_for_symbol_def
        reader0_fields decimal_def blank_def leaf_def label_loop.simps
        pull_captured_comments_def finish_node_def reader0_def Let_def)

text \<open>
  \<^verbatim>\<open>(A:x);\<close> read with \<^verbatim>\<open>suppress_edge_lengths=True\<close>: the edge length type raises
  \<^verbatim>\<open>ValueError\<close> on \<^verbatim>\<open>x\<close>, and the statement is read without error.
\<close>

theorem suppressed_edge_length_counterexample:
  "edge_len_type (reader0\<lparr>suppress_edge_lengths := True\<rparr>) (Some ''x'') = Inl ValueError
   \<and> requests 1 (reader0\<lparr>suppress_edge_lengths := True\<rparr>) no_metadata
       require_taxon_for_symbol
       (tree_iter (tokens [''('', ''A'', '':'', ''x'', '')'', '';'']) [])
     = Some [Yield (Some (example_tree (Some False) [leaf ''A'']))]"
  by code_simp

subsection \<open>The options on taxon labels\<close>

lemma relabelled_fields [simp]:
  "rooting (relabelled a b self) = rooting self"
  "edge_len_type (relabelled a b self) = edge_len_type self"
  "suppress_edge_lengths (relabelled a b self) = suppress_edge_lengths self"
  "extract_comment_metadata (relabelled a b self) = extract_comment_metadata self"
  "store_tree_weights (relabelled a b self) = store_tree_weights self"
  "finish_node_func (relabelled a b self) = finish_node_func self"
  "preserve_underscores (relabelled a b self) = preserve_underscores self"
  "suppress_internal_node_taxa (relabelled a b self) = suppress_internal_node_taxa self"
  "suppress_external_node_taxa (relabelled a b self) = suppress_external_node_taxa self"
  by (simp_all add: relabelled_def)

lemma relabelled_rooting_state [simp]:
  "parse_tree_rooting_state (relabelled a b self) c = parse_tree_rooting_state self c"
  by (simp add: parse_tree_rooting_state_def)

lemma relabelled_tree_comments_loop [simp]:
  "tree_comments_loop (relabelled a b self) pcm tree rfound wfound cs
     = tree_comments_loop self pcm tree rfound wfound cs"
  by (induction cs arbitrary: tree rfound wfound)
     (simp_all cong: sum.case_cong if_cong)

lemma relabelled_process_tree_comments [simp]:
  "process_tree_comments (relabelled a b self) pcm tree cs
     = process_tree_comments self pcm tree cs"
  by (simp add: process_tree_comments_def cong: sum.case_cong if_cong)

lemma relabelled_process_node_comments [simp]:
  "process_node_comments (relabelled a b self) pcm node cs
     = process_node_comments self pcm node cs"
  by (induction cs arbitrary: node) simp_all

lemma relabelled_finish_node [simp]:
  "finish_node (relabelled a b self) node = finish_node self node"
  by (simp add: finish_node_def)

lemma relabelled_parse_label [simp]:
  "parse_label (relabelled a b self) m i tk ns node = parse_label self m i tk ns node"
  by (simp add: parse_label_def store_label_def cong: option.case_cong if_cong)

lemma relabelled_blank_child [simp]:
  "blank_child (relabelled a b self) pcm tk node = blank_child self pcm tk node"
  by (simp add: blank_child_def)

lemma relabelled_blank_run [simp]:
  "blank_run (relabelled a b self) pcm tk node = blank_run self pcm tk node"
proof (induction self pcm tk node rule: blank_run.induct)
  case (1 self pcm tk current_node)
  show ?case
    by (subst blank_run.simps, subst (2) blank_run.simps)
       (simp add: 1 cong: sum.case_cong if_cong)
qed

lemma relabelled_label_loop [simp]:
  "label_loop (relabelled a b self) pcm m i st node cs lp = label_loop self pcm m i st node cs lp"
proof (induction self pcm m i st node cs lp rule: label_loop.induct)
  case (1 self pcm m i st node cs lp)
  show ?case
    by (subst label_loop.simps, subst (2) label_loop.simps)
       (simp add: 1 Let_def cong: sum.case_cong prod.case_cong if_cong)
qed

lemma relabelled_descent:
  "parse_tree_node_description f (relabelled a b self) pcm m st node i
     = parse_tree_node_description f self pcm m st node i"
  "parse_child_nodes f (relabelled a b self) pcm m st node c
     = parse_child_nodes f self pcm m st node c"
proof (induction f arbitrary: st node i c)
  case 0
  {
    case 1 show ?case by (simp add: parse_tree_node_description.simps)
  next
    case 2 show ?case by (simp add: parse_child_nodes.simps)
  }
next
  case (Suc f)
  {
    case 1
    show ?case
      by (simp add: parse_tree_node_description.simps Suc Let_def
            cong: sum.case_cong option.case_cong prod.case_cong if_cong)
  next
    case 2
    show ?case
      by (simp add: parse_child_nodes.simps Suc Let_def
            cong: sum.case_cong option.case_cong prod.case_cong if_cong)
  }
qed

lemma relabelled_parse_tree_statement [simp]:
  "parse_tree_statement (relabelled a b self) pcm m st = parse_tree_statement self pcm m st"
  by (simp add: parse_tree_statement_def relabelled_descent
        cong: sum.case_cong option.case_cong prod.case_cong if_cong)

lemma relabelled_next_tree [simp]:
  "next_tree (relabelled a b self) pcm m g = next_tree self pcm m g"
  by (cases g) simp_all

lemma relabelled_requests:
  "requests n (relabelled a b self) pcm m g = requests n self pcm m g"
  by (induction n arbitrary: g) (simp_all cong: option.case_cong prod.case_cong)

text \<open>
  Claim C10: the outcomes of any number of requests made to \<^verbatim>\<open>tree_iter\<close> on any stream
  are the same whatever the values of \<^verbatim>\<open>case_sensitive_taxon_labels\<close> and of
  \<^verbatim>\<open>allow_duplicate_taxon_labels\<close>, for every reader, metadata parser, taxon mapper and
  namespace.
\<close>

theorem taxon_label_options_have_no_effect:
  "requests n (self\<lparr>case_sensitive_taxon_labels := a, allow_duplicate_taxon_labels := b\<rparr>)
     pcm m (tree_iter stream ns)
   = requests n self pcm m (tree_iter stream ns)"
  using relabelled_requests [of n a b self pcm m "tree_iter stream ns"]
  by (simp add: relabelled_def)

end
